theory Spec2Isabelle
  imports Complex_Main "HOL-Library.Char_ord" "HOL-Library.Log_Nat"
begin

section \<open>The platform: JavaScript values the crawler gets from its environment\<close>

text \<open>
  Strings are lists of 8-bit code units. Numbers that the crawler only counts with or
  multiplies by powers of two are integers.

  A value thrown by the platform is either an \<open>Error\<close> object with its message, or some
  other value with its \<open>String(...)\<close> rendering.
\<close>

datatype js_exn = JsError string | JsValue string

fun exn_message :: "js_exn \<Rightarrow> string" where
  "exn_message (JsError m) = m"
| "exn_message (JsValue v) = v"

record request =
  req_url :: string
  req_headers :: "(string \<times> string) list"
  req_timeout :: int

record response =
  resp_status :: int
  resp_url :: string
  resp_contentType :: "string option"
  resp_text :: "js_exn + string"

definition resp_ok :: "response \<Rightarrow> bool" where
  "resp_ok r = (200 \<le> resp_status r \<and> resp_status r \<le> 299)"

text \<open>
  The global \<open>fetch\<close>, the \<open>URL\<close> class, the timer and the clock are the platform's, not
  the repository's: they are parameters of the model, over an arbitrary world state
  \<open>'w\<close> that \<open>fetch\<close> and \<open>setTimeout\<close> may change.
\<close>

record 'w platform =
  fetch :: "'w \<Rightarrow> request \<Rightarrow> (js_exn + response) \<times> 'w"
  setTimeout :: "int \<Rightarrow> 'w \<Rightarrow> 'w"
  date_now :: "'w \<Rightarrow> int"
  date_iso :: "'w \<Rightarrow> string"
  url_href :: "string \<Rightarrow> string option"
  url_resolve :: "string \<Rightarrow> string \<Rightarrow> string option"
  url_origin :: "string \<Rightarrow> string option"

datatype event = EvFetch string | EvSleep int | EvWarn string | EvLog string

record 'w io =
  world :: 'w
  trace :: "event list"

definition emit :: "event \<Rightarrow> 'w io \<Rightarrow> 'w io" where
  "emit e s = s\<lparr>trace := trace s @ [e]\<rparr>"

definition sleep :: "'w platform \<Rightarrow> int \<Rightarrow> 'w io \<Rightarrow> 'w io" where
  "sleep pf ms s = emit (EvSleep ms) (s\<lparr>world := setTimeout pf ms (world s)\<rparr>)"

definition do_fetch :: "'w platform \<Rightarrow> request \<Rightarrow> 'w io \<Rightarrow> (js_exn + response) \<times> 'w io" where
  "do_fetch pf rq s =
     (case fetch pf (world s) rq of
        (out, w') \<Rightarrow> (out, emit (EvFetch (req_url rq)) (s\<lparr>world := w'\<rparr>)))"

subsection \<open>Rendering numbers in template strings\<close>

fun show_nat :: "nat \<Rightarrow> string" where
  "show_nat n = (if n < 10 then [''0123456789'' ! n]
                 else show_nat (n div 10) @ [''0123456789'' ! (n mod 10)])"

declare show_nat.simps [simp del]

definition show_int :: "int \<Rightarrow> string" where
  "show_int i = (if i < 0 then CHR ''-'' # show_nat (nat (- i)) else show_nat (nat i))"

section \<open>Fetch with retry\<close>

definition page_request :: "string \<Rightarrow> request" where
  "page_request u =
     \<lparr>req_url = u,
      req_headers =
        [(''User-Agent'', ''ThemeIntelligenceExtractor/1.0 (Design Token Analysis)''),
         (''Accept'', ''text/html,text/css,application/javascript,*/*''),
         (''Accept-Language'', ''en-US,en;q=0.9'')],
      req_timeout = 30000\<rparr>"

definition as_Error :: "js_exn \<Rightarrow> js_exn" where
  "as_Error e = (case e of JsError m \<Rightarrow> JsError m | JsValue v \<Rightarrow> JsError v)"

text \<open>
  The \<open>for\<close> loop of \<open>fetchWithRetry\<close>, from attempt \<open>attempt\<close> on, with the variable
  \<open>lastError\<close>. \<open>Inl\<close> is the \<open>throw\<close> after the loop.
\<close>

function fetchWithRetry_loop ::
  "'w platform \<Rightarrow> string \<Rightarrow> int \<Rightarrow> int \<Rightarrow> nat \<Rightarrow> js_exn option \<Rightarrow> 'w io
     \<Rightarrow> (js_exn + response) \<times> 'w io" where
  "fetchWithRetry_loop pf url maxRetries initialDelay attempt lastError s =
     (if int attempt < maxRetries then
        (case do_fetch pf (page_request url) s of
           (Inr response, s1) \<Rightarrow>
             if resp_status response = 429 \<or> resp_status response \<ge> 500 then
               let delay = initialDelay * 2 ^ attempt;
                   s2 = emit (EvWarn (''[Crawler] '' @ show_int (resp_status response) @ '' for '' @ url
                          @ '', retrying in '' @ show_int delay @ ''ms...'')) s1;
                   s3 = sleep pf delay s2
               in fetchWithRetry_loop pf url maxRetries initialDelay (Suc attempt) lastError s3
             else (Inr response, s1)
         | (Inl error, s1) \<Rightarrow>
             let lastError' = as_Error error in
             if int attempt < maxRetries - 1 then
               let delay = initialDelay * 2 ^ attempt;
                   s2 = emit (EvWarn (''[Crawler] Error fetching '' @ url @ '': ''
                          @ exn_message lastError' @ '', retrying in '' @ show_int delay @ ''ms...'')) s1;
                   s3 = sleep pf delay s2
               in fetchWithRetry_loop pf url maxRetries initialDelay (Suc attempt) (Some lastError') s3
             else fetchWithRetry_loop pf url maxRetries initialDelay (Suc attempt) (Some lastError') s1)
      else
        (Inl (case lastError of
                Some e \<Rightarrow> e
              | None \<Rightarrow> JsError (''Failed to fetch '' @ url @ '' after '' @ show_int maxRetries
                          @ '' attempts'')), s))"
  by pat_completeness auto
termination
  by (relation "measure (\<lambda>(pf, url, maxRetries, initialDelay, attempt, lastError, s).
                  nat (maxRetries - int attempt))") auto

declare fetchWithRetry_loop.simps [simp del]

definition fetchWithRetry :: "'w platform \<Rightarrow> string \<Rightarrow> int \<Rightarrow> int \<Rightarrow> 'w io
     \<Rightarrow> (js_exn + response) \<times> 'w io" where
  "fetchWithRetry pf url maxRetries initialDelay s =
     fetchWithRetry_loop pf url maxRetries initialDelay 0 None s"


section \<open>String methods of the platform\<close>

text \<open>
  \<open>String.prototype.trim\<close> removes white space and line terminators; among the code
  units below 256 these are TAB, LF, VT, FF, CR, SPACE and NBSP. The regular expression
  class \<open>\s\<close> is the same set.
\<close>

definition is_space :: "char \<Rightarrow> bool" where
  "is_space c = (c \<in> set [CHR 0x09, CHR 0x0A, CHR 0x0B, CHR 0x0C, CHR 0x0D, CHR 0x20, CHR 0xA0])"

definition trim :: "string \<Rightarrow> string" where
  "trim s = rev (dropWhile is_space (rev (dropWhile is_space s)))"

text \<open>\<open>toLowerCase\<close> on code units below 256: the letters A-Z and the Latin-1 capitals.\<close>

definition toLower_char :: "char \<Rightarrow> char" where
  "toLower_char c =
     (if (CHR ''A'' \<le> c \<and> c \<le> CHR ''Z'') \<or> (CHR 0xC0 \<le> c \<and> c \<le> CHR 0xDE \<and> c \<noteq> CHR 0xD7)
      then (case c of Char b0 b1 b2 b3 b4 b5 b6 b7 \<Rightarrow> Char b0 b1 b2 b3 b4 True b6 b7)
      else c)"

definition toLowerCase :: "string \<Rightarrow> string" where
  "toLowerCase s = map toLower_char s"

definition startsWith :: "string \<Rightarrow> string \<Rightarrow> bool" where
  "startsWith s p = (take (length p) s = p)"

fun js_includes :: "string \<Rightarrow> string \<Rightarrow> bool" where
  "js_includes [] p = (p = [])"
| "js_includes (c # cs) p = (startsWith (c # cs) p \<or> js_includes cs p)"

text \<open>\<open>s.replace(p, r)\<close> with a string pattern replaces the first occurrence only.\<close>

fun replace_first :: "string \<Rightarrow> string \<Rightarrow> string \<Rightarrow> string" where
  "replace_first [] p r = (if p = [] then r else [])"
| "replace_first (c # cs) p r =
     (if startsWith (c # cs) p then r @ drop (length p) (c # cs)
      else c # replace_first cs p r)"

text \<open>\<open>s.split(c)\<close> for a one-character separator.\<close>

fun split_char :: "char \<Rightarrow> string \<Rightarrow> string list" where
  "split_char sep [] = [[]]"
| "split_char sep (c # cs) =
     (if c = sep then [] # split_char sep cs
      else (case split_char sep cs of
              [] \<Rightarrow> [[c]]
            | l # ls \<Rightarrow> (c # l) # ls))"

text \<open>\<open>xs.join(sep)\<close>.\<close>

fun join :: "string \<Rightarrow> string list \<Rightarrow> string" where
  "join sep [] = []"
| "join sep [x] = x"
| "join sep (x # y # ys) = x @ sep @ join sep (y # ys)"

section \<open>URL utilities\<close>

definition normalizeUrl :: "'w platform \<Rightarrow> string \<Rightarrow> string option \<Rightarrow> string option" where
  "normalizeUrl pf url baseUrl =
     (case baseUrl of
        Some b \<Rightarrow> if b \<noteq> [] then url_resolve pf url b else url_href pf url
      | None \<Rightarrow> url_href pf url)"

definition isSameOrigin :: "'w platform \<Rightarrow> string \<Rightarrow> string \<Rightarrow> bool" where
  "isSameOrigin pf url1 url2 =
     (case url_origin pf url1 of
        None \<Rightarrow> False
      | Some o1 \<Rightarrow> (case url_origin pf url2 of None \<Rightarrow> False | Some o2 \<Rightarrow> o1 = o2))"

definition getOrigin :: "'w platform \<Rightarrow> string \<Rightarrow> string option" where
  "getOrigin pf url = url_origin pf url"

section \<open>Robots.txt checking\<close>

record robots_check =
  allowed :: bool
  warning :: "string option"

definition robots_request :: "string \<Rightarrow> request" where
  "robots_request origin =
     \<lparr>req_url = origin @ ''/robots.txt'',
      req_headers = [(''User-Agent'', ''ThemeIntelligenceExtractor/1.0'')],
      req_timeout = 5000\<rparr>"

text \<open>The \<open>for (const line of lines)\<close> loop, with the variable \<open>inUserAgentBlock\<close>.\<close>

fun robots_lines :: "bool \<Rightarrow> string list \<Rightarrow> robots_check" where
  "robots_lines inUserAgentBlock [] = \<lparr>allowed = True, warning = None\<rparr>"
| "robots_lines inUserAgentBlock (line # rest) =
     (let trimmed = toLowerCase (trim line) in
      if startsWith trimmed ''user-agent:'' then
        let agent = trim (replace_first trimmed ''user-agent:'' '''') in
        robots_lines (agent = ''*'' \<or> js_includes agent ''bot'') rest
      else if inUserAgentBlock \<and> startsWith trimmed ''disallow:'' then
        let path = trim (replace_first trimmed ''disallow:'' '''') in
        if path = ''/'' \<or> path = ''/*'' then
          \<lparr>allowed = False, warning = Some (''robots.txt disallows crawling: '' @ path)\<rparr>
        else robots_lines inUserAgentBlock rest
      else robots_lines inUserAgentBlock rest)"

definition robots_catch :: "js_exn \<Rightarrow> robots_check" where
  "robots_catch error =
     \<lparr>allowed = True,
      warning = Some (''Could not fetch robots.txt: ''
                  @ (case error of JsError m \<Rightarrow> m | JsValue v \<Rightarrow> ''unknown error''))\<rparr>"

definition checkRobotsTxt :: "'w platform \<Rightarrow> string \<Rightarrow> 'w io \<Rightarrow> robots_check \<times> 'w io" where
  "checkRobotsTxt pf baseUrl s =
     (case getOrigin pf baseUrl of
        None \<Rightarrow> (\<lparr>allowed = True, warning = None\<rparr>, s)
      | Some origin \<Rightarrow>
          if origin = [] then (\<lparr>allowed = True, warning = None\<rparr>, s)
          else
            (case do_fetch pf (robots_request origin) s of
               (Inl error, s1) \<Rightarrow> (robots_catch error, s1)
             | (Inr response, s1) \<Rightarrow>
                 if \<not> resp_ok response then (\<lparr>allowed = True, warning = None\<rparr>, s1)
                 else
                   (case resp_text response of
                      Inl error \<Rightarrow> (robots_catch error, s1)
                    | Inr text \<Rightarrow> (robots_lines False (split_char (CHR 0x0A) text), s1))))"

section \<open>Single page fetch and stylesheet fetch\<close>

record links =
  l_cssLinks :: "string list"
  l_jsLinks :: "string list"
  l_internalLinks :: "string list"

record CrawlResult =
  cr_url :: string
  cr_finalUrl :: string
  cr_status :: int
  cr_contentType :: string
  cr_html :: string
  cr_cssLinks :: "string list"
  cr_jsLinks :: "string list"
  cr_internalLinks :: "string list"
  cr_error :: "string option"

definition failed_result :: "string \<Rightarrow> js_exn \<Rightarrow> CrawlResult" where
  "failed_result url error =
     \<lparr>cr_url = url, cr_finalUrl = url, cr_status = 0, cr_contentType = '''', cr_html = '''',
      cr_cssLinks = [], cr_jsLinks = [], cr_internalLinks = [],
      cr_error = Some (case error of JsError m \<Rightarrow> m | JsValue v \<Rightarrow> ''Unknown error'')\<rparr>"

text \<open>
  \<open>extractLinks\<close> resolves every reference with the platform's \<open>URL\<close> class; the crawl
  loop only stores and enqueues what it returns, so it is a parameter here.
\<close>

definition fetchPage ::
  "'w platform \<Rightarrow> (string \<Rightarrow> string \<Rightarrow> links) \<Rightarrow> string \<Rightarrow> 'w io \<Rightarrow> CrawlResult \<times> 'w io" where
  "fetchPage pf extractLinks url s =
     (case fetchWithRetry pf url 3 1000 s of
        (Inl error, s1) \<Rightarrow> (failed_result url error, s1)
      | (Inr response, s1) \<Rightarrow>
          let contentType = (case resp_contentType response of
                               None \<Rightarrow> '''' | Some c \<Rightarrow> c) in
          if \<not> resp_ok response then
            (\<lparr>cr_url = url, cr_finalUrl = resp_url response, cr_status = resp_status response,
              cr_contentType = contentType, cr_html = '''',
              cr_cssLinks = [], cr_jsLinks = [], cr_internalLinks = [],
              cr_error = Some (''HTTP '' @ show_int (resp_status response))\<rparr>, s1)
          else
            (case resp_text response of
               Inl error \<Rightarrow> (failed_result url error, s1)
             | Inr html \<Rightarrow>
                 let links = extractLinks html (resp_url response) in
                 (\<lparr>cr_url = url, cr_finalUrl = resp_url response, cr_status = resp_status response,
                   cr_contentType = contentType, cr_html = html,
                   cr_cssLinks = l_cssLinks links, cr_jsLinks = l_jsLinks links,
                   cr_internalLinks = l_internalLinks links,
                   cr_error = None\<rparr>, s1)))"

definition fetchCSS :: "'w platform \<Rightarrow> string \<Rightarrow> 'w io \<Rightarrow> string option \<times> 'w io" where
  "fetchCSS pf url s =
     (case fetchWithRetry pf url 3 1000 s of
        (Inl error, s1) \<Rightarrow> (None, s1)
      | (Inr response, s1) \<Rightarrow>
          if \<not> resp_ok response then (None, s1)
          else (case resp_text response of
                  Inl error \<Rightarrow> (None, s1)
                | Inr text \<Rightarrow> (Some text, s1)))"

section \<open>Main crawler\<close>

record ExtractorConfig =
  themeUrl :: string
  maxPages :: int
  sameOriginOnly :: bool
  includeAssets :: bool
  mode :: string
  cfg_notes :: string

record CrawledPage =
  pg_url :: string
  finalUrl :: string
  pg_status :: int
  pg_headers :: "(string \<times> string) list"
  htmlSnippet :: string
  fullHtml :: string
  cssLinks :: "string list"
  jsLinks :: "string list"
  internalLinks :: "string list"
  crawledAt :: string
  pg_error :: "string option"

text \<open>
  A \<open>Map\<close> is an association list in insertion order; \<open>set\<close> on a key that is present
  replaces the value where it stands. A \<open>Set\<close> that is iterated is a list without
  repetitions, in insertion order.
\<close>

fun map_set :: "('k \<times> 'v) list \<Rightarrow> 'k \<Rightarrow> 'v \<Rightarrow> ('k \<times> 'v) list" where
  "map_set [] k v = [(k, v)]"
| "map_set ((k', v') # m) k v = (if k' = k then (k, v) # m else (k', v') # map_set m k v)"

definition set_add :: "'a list \<Rightarrow> 'a \<Rightarrow> 'a list" where
  "set_add xs x = (if x \<in> set xs then xs else xs @ [x])"

record CrawlSession =
  startUrl :: string
  pages :: "CrawledPage list"
  cssContents :: "(string \<times> string) list"
  robotsTxtStatus :: string
  robotsTxtWarning :: "string option"
  totalRequests :: int
  failedRequests :: int
  crawlDuration :: int

text \<open>The local variables of \<open>crawl\<close> that the two loops update.\<close>

record crawl_vars =
  v_visited :: "string set"
  v_queue :: "string list"
  v_pages :: "CrawledPage list"
  v_cssContents :: "(string \<times> string) list"
  v_allCssLinks :: "string list"
  v_totalRequests :: int
  v_failedRequests :: int

definition truthy :: "string option \<Rightarrow> bool" where
  "truthy x = (case x of None \<Rightarrow> False | Some s \<Rightarrow> s \<noteq> [])"

definition loop_cond :: "ExtractorConfig \<Rightarrow> crawl_vars \<Rightarrow> bool" where
  "loop_cond config v = (length (v_queue v) > 0 \<and> int (length (v_pages v)) < maxPages config)"

text \<open>One iteration of the \<open>while\<close> loop (its condition holds, so the queue is not empty).\<close>

definition crawl_body ::
  "'w platform \<Rightarrow> (string \<Rightarrow> string \<Rightarrow> links) \<Rightarrow> ExtractorConfig \<Rightarrow> crawl_vars \<Rightarrow> 'w io
     \<Rightarrow> crawl_vars \<times> 'w io" where
  "crawl_body pf extractLinks config v s =
     (case v_queue v of
        [] \<Rightarrow> (v, s)
      | url # rest \<Rightarrow>
          let v1 = v\<lparr>v_queue := rest\<rparr> in
          (case normalizeUrl pf url None of
             None \<Rightarrow> (v1, s)
           | Some normalizedUrl \<Rightarrow>
               if normalizedUrl = [] \<or> normalizedUrl \<in> v_visited v1 then (v1, s)
               else
                 let v2 = v1\<lparr>v_visited := insert normalizedUrl (v_visited v1)\<rparr> in
                 if sameOriginOnly config \<and> \<not> isSameOrigin pf normalizedUrl (themeUrl config)
                 then (v2, s)
                 else
                   let s1 = emit (EvLog (''[Crawler] Fetching (''
                              @ show_int (int (length (v_pages v2)) + 1) @ ''/''
                              @ show_int (maxPages config) @ ''): '' @ normalizedUrl)) s;
                       v3 = v2\<lparr>v_totalRequests := v_totalRequests v2 + 1\<rparr>
                   in
                   (case fetchPage pf extractLinks normalizedUrl s1 of
                      (result, s2) \<Rightarrow>
                        let failed = truthy (cr_error result);
                            v4 = (if failed
                                  then v3\<lparr>v_failedRequests := v_failedRequests v3 + 1\<rparr>
                                  else v3);
                            s3 = (if failed
                                  then emit (EvWarn (''[Crawler] Failed: '' @ the (cr_error result))) s2
                                  else s2);
                            page = \<lparr>pg_url = cr_url result, finalUrl = cr_finalUrl result,
                                    pg_status = cr_status result, pg_headers = [],
                                    htmlSnippet = take 2000 (cr_html result),
                                    fullHtml = cr_html result,
                                    cssLinks = cr_cssLinks result, jsLinks = cr_jsLinks result,
                                    internalLinks = cr_internalLinks result,
                                    crawledAt = date_iso pf (world s3),
                                    pg_error = cr_error result\<rparr>;
                            v5 = v4\<lparr>v_pages := v_pages v4 @ [page]\<rparr>;
                            v6 = v5\<lparr>v_allCssLinks := foldl set_add (v_allCssLinks v5) (cr_cssLinks result)\<rparr>;
                            v7 = v6\<lparr>v_queue := v_queue v6
                                    @ filter (\<lambda>link. link \<notin> v_visited v6) (cr_internalLinks result)\<rparr>
                        in (v7, sleep pf 500 s3))))"

function crawl_loop ::
  "'w platform \<Rightarrow> (string \<Rightarrow> string \<Rightarrow> links) \<Rightarrow> ExtractorConfig \<Rightarrow> crawl_vars \<Rightarrow> 'w io
     \<Rightarrow> crawl_vars \<times> 'w io" where
  "crawl_loop pf extractLinks config v s =
     (if loop_cond config v
      then (case crawl_body pf extractLinks config v s of
              (v', s') \<Rightarrow> crawl_loop pf extractLinks config v' s')
      else (v, s))"
  by pat_completeness auto
termination
  apply (relation "measures [\<lambda>(pf, xl, config, v, s). nat (maxPages config - int (length (v_pages v))),
                             \<lambda>(pf, xl, config, v, s). length (v_queue v)]")
   apply simp
  apply (auto simp: loop_cond_def crawl_body_def Let_def
              split: list.splits option.splits if_splits prod.splits)
  done

declare crawl_loop.simps [simp del]

text \<open>The asset pass: \<open>for (const cssUrl of allCssLinks)\<close>.\<close>

fun fetch_assets :: "'w platform \<Rightarrow> string list \<Rightarrow> crawl_vars \<Rightarrow> 'w io \<Rightarrow> crawl_vars \<times> 'w io" where
  "fetch_assets pf [] v s = (v, s)"
| "fetch_assets pf (cssUrl # rest) v s =
     (let v1 = v\<lparr>v_totalRequests := v_totalRequests v + 1\<rparr> in
      case fetchCSS pf cssUrl s of
        (css, s1) \<Rightarrow>
          let v2 = (if truthy css
                    then v1\<lparr>v_cssContents := map_set (v_cssContents v1) cssUrl (the css)\<rparr>
                    else v1\<lparr>v_failedRequests := v_failedRequests v1 + 1\<rparr>)
          in fetch_assets pf rest v2 (sleep pf 300 s1))"

definition crawl ::
  "'w platform \<Rightarrow> (string \<Rightarrow> string \<Rightarrow> links) \<Rightarrow> ExtractorConfig \<Rightarrow> 'w io \<Rightarrow> CrawlSession \<times> 'w io" where
  "crawl pf extractLinks config s0 =
     (let startTime = date_now pf (world s0);
          v0 = \<lparr>v_visited = {}, v_queue = [themeUrl config], v_pages = [], v_cssContents = [],
                v_allCssLinks = [], v_totalRequests = 0, v_failedRequests = 0\<rparr>
      in
      case checkRobotsTxt pf (themeUrl config) s0 of
        (robotsCheck, s1) \<Rightarrow>
          let verdict = (if allowed robotsCheck then ''allowed'' else ''blocked'');
              s2 = (if \<not> allowed robotsCheck
                    then emit (EvWarn (''[Crawler] Warning: ''
                           @ (case warning robotsCheck of None \<Rightarrow> ''undefined'' | Some w \<Rightarrow> w))) s1
                    else s1)
          in
          (case crawl_loop pf extractLinks config v0 s2 of
             (v1, s3) \<Rightarrow>
               (case (if includeAssets config
                      then fetch_assets pf (v_allCssLinks v1) v1
                             (emit (EvLog (''[Crawler] Fetching ''
                                @ show_int (int (length (v_allCssLinks v1))) @ '' CSS files...'')) s3)
                      else (v1, s3)) of
                  (v2, s4) \<Rightarrow>
                    (\<lparr>startUrl = themeUrl config,
                      pages = v_pages v2,
                      cssContents = v_cssContents v2,
                      robotsTxtStatus = verdict,
                      robotsTxtWarning = warning robotsCheck,
                      totalRequests = v_totalRequests v2,
                      failedRequests = v_failedRequests v2,
                      crawlDuration = date_now pf (world s4) - startTime\<rparr>, s4))))"

subsection \<open>Reading the trace\<close>

fun sleeps_of :: "event list \<Rightarrow> int list" where
  "sleeps_of [] = []"
| "sleeps_of (EvSleep d # es) = d # sleeps_of es"
| "sleeps_of (_ # es) = sleeps_of es"

fun fetches_of :: "event list \<Rightarrow> string list" where
  "fetches_of [] = []"
| "fetches_of (EvFetch u # es) = u # fetches_of es"
| "fetches_of (_ # es) = fetches_of es"



subsection \<open>The invariant of the crawl loop\<close>

definition crawl_inv :: "ExtractorConfig \<Rightarrow> crawl_vars \<Rightarrow> bool" where
  "crawl_inv config v =
     (distinct (map pg_url (v_pages v))
      \<and> set (map pg_url (v_pages v)) \<subseteq> v_visited v
      \<and> int (length (v_pages v)) \<le> maxPages config)"

definition crawl_start :: "ExtractorConfig \<Rightarrow> crawl_vars" where
  "crawl_start config =
     \<lparr>v_visited = {}, v_queue = [themeUrl config], v_pages = [], v_cssContents = [],
      v_allCssLinks = [], v_totalRequests = 0, v_failedRequests = 0\<rparr>"

subsection \<open>Reading a robots.txt line the way the checker does\<close>






section \<open>Regular expressions of the platform\<close>

text \<open>
  The extraction module matches text with \<open>RegExp\<close> objects only. This is the
  backtracking matcher of the language specification, for the constructs the module
  uses: a pattern is tried at a start position, and \<open>matcher\<close> lists the states in
  which a match of the pattern can end, in the order in which backtracking tries them;
  the first one is the match. A state is the input that is left, the character before
  it, the position, and the captures made so far.
\<close>

datatype cls_item = Ch char | Rng char char | Space | NonSpace | Digit

datatype regex =
    Lit string
  | Cls "cls_item list"
  | NCls "cls_item list"
  | Seq regex regex
  | Alt regex regex
  | Star regex
  | LazyStar regex
  | Plus regex
  | Opt regex
  | Rep nat nat regex
  | Grp nat regex
  | WordB
  | Bol
  | Eol

record mstate =
  ms_prev :: "char option"
  ms_rest :: string
  ms_pos :: nat
  ms_caps :: "(nat \<times> string) list"

text \<open>
  With the flag \<open>i\<close> two characters match when their canonical forms (upper case) are
  equal; for the ASCII letters of the patterns this is the only folding there is.
\<close>

definition canon :: "char \<Rightarrow> char" where
  "canon c =
     (if CHR ''a'' \<le> c \<and> c \<le> CHR ''z''
      then (case c of Char b0 b1 b2 b3 b4 b5 b6 b7 \<Rightarrow> Char b0 b1 b2 b3 b4 False b6 b7)
      else c)"

definition uncanon :: "char \<Rightarrow> char" where
  "uncanon c =
     (if CHR ''A'' \<le> c \<and> c \<le> CHR ''Z''
      then (case c of Char b0 b1 b2 b3 b4 b5 b6 b7 \<Rightarrow> Char b0 b1 b2 b3 b4 True b6 b7)
      else c)"

definition char_eq :: "bool \<Rightarrow> char \<Rightarrow> char \<Rightarrow> bool" where
  "char_eq ic a b = (if ic then canon a = canon b else a = b)"

definition is_word :: "char \<Rightarrow> bool" where
  "is_word c = ((CHR ''a'' \<le> c \<and> c \<le> CHR ''z'') \<or> (CHR ''A'' \<le> c \<and> c \<le> CHR ''Z'')
                \<or> (CHR ''0'' \<le> c \<and> c \<le> CHR ''9'') \<or> c = CHR ''_'')"

fun item_match :: "bool \<Rightarrow> cls_item \<Rightarrow> char \<Rightarrow> bool" where
  "item_match ic (Ch x) c = char_eq ic x c"
| "item_match ic (Rng lo hi) c =
     ((lo \<le> c \<and> c \<le> hi)
      \<or> (ic \<and> ((lo \<le> canon c \<and> canon c \<le> hi) \<or> (lo \<le> uncanon c \<and> uncanon c \<le> hi))))"
| "item_match ic Space c = is_space c"
| "item_match ic NonSpace c = (\<not> is_space c)"
| "item_match ic Digit c = (CHR ''0'' \<le> c \<and> c \<le> CHR ''9'')"

definition cls_match :: "bool \<Rightarrow> cls_item list \<Rightarrow> char \<Rightarrow> bool" where
  "cls_match ic items c = list_ex (\<lambda>it. item_match ic it c) items"

definition step_char :: "(char \<Rightarrow> bool) \<Rightarrow> mstate \<Rightarrow> mstate list" where
  "step_char p st =
     (case ms_rest st of
        [] \<Rightarrow> []
      | c # cs \<Rightarrow> if p c then [st\<lparr>ms_prev := Some c, ms_rest := cs, ms_pos := Suc (ms_pos st)\<rparr>] else [])"

fun match_lit :: "bool \<Rightarrow> string \<Rightarrow> mstate \<Rightarrow> mstate list" where
  "match_lit ic [] st = [st]"
| "match_lit ic (x # xs) st = concat (map (match_lit ic xs) (step_char (char_eq ic x) st))"

text \<open>
  Quantifiers. An iteration that matches the empty string is rejected once the minimum
  is reached, so every further iteration consumes input and the input left bounds the
  number of iterations: \<open>fuel\<close> is the input left.
\<close>

definition advancing :: "mstate \<Rightarrow> mstate list \<Rightarrow> mstate list" where
  "advancing st sts = filter (\<lambda>st'. ms_pos st < ms_pos st') sts"

primrec star :: "(mstate \<Rightarrow> mstate list) \<Rightarrow> string \<Rightarrow> mstate \<Rightarrow> mstate list" where
  "star f [] st = [st]"
| "star f (x # fuel) st = concat (map (star f fuel) (advancing st (f st))) @ [st]"

primrec lazy_star :: "(mstate \<Rightarrow> mstate list) \<Rightarrow> string \<Rightarrow> mstate \<Rightarrow> mstate list" where
  "lazy_star f [] st = [st]"
| "lazy_star f (x # fuel) st = st # concat (map (lazy_star f fuel) (advancing st (f st)))"

primrec rep_upto :: "(mstate \<Rightarrow> mstate list) \<Rightarrow> nat \<Rightarrow> mstate \<Rightarrow> mstate list" where
  "rep_upto f 0 st = [st]"
| "rep_upto f (Suc n) st = concat (map (rep_upto f n) (advancing st (f st))) @ [st]"

primrec rep_exact :: "(mstate \<Rightarrow> mstate list) \<Rightarrow> nat \<Rightarrow> (mstate \<Rightarrow> mstate list)
     \<Rightarrow> mstate \<Rightarrow> mstate list" where
  "rep_exact f 0 k st = k st"
| "rep_exact f (Suc n) k st = concat (map (rep_exact f n k) (f st))"

definition set_cap :: "nat \<Rightarrow> mstate \<Rightarrow> mstate \<Rightarrow> mstate" where
  "set_cap k st st' = st'\<lparr>ms_caps := (k, take (ms_pos st' - ms_pos st) (ms_rest st)) # ms_caps st'\<rparr>"

definition at_word_boundary :: "mstate \<Rightarrow> bool" where
  "at_word_boundary st =
     ((case ms_prev st of None \<Rightarrow> False | Some c \<Rightarrow> is_word c)
      \<noteq> (case ms_rest st of [] \<Rightarrow> False | c # cs \<Rightarrow> is_word c))"

primrec matcher :: "regex \<Rightarrow> bool \<Rightarrow> mstate \<Rightarrow> mstate list" where
  "matcher (Lit p) ic st = match_lit ic p st"
| "matcher (Cls items) ic st = step_char (cls_match ic items) st"
| "matcher (NCls items) ic st = step_char (\<lambda>c. \<not> cls_match ic items c) st"
| "matcher (Seq a b) ic st = concat (map (matcher b ic) (matcher a ic st))"
| "matcher (Alt a b) ic st = matcher a ic st @ matcher b ic st"
| "matcher (Star r) ic st = star (matcher r ic) (ms_rest st) st"
| "matcher (LazyStar r) ic st = lazy_star (matcher r ic) (ms_rest st) st"
| "matcher (Plus r) ic st = concat (map (\<lambda>st'. star (matcher r ic) (ms_rest st') st') (matcher r ic st))"
| "matcher (Opt r) ic st = advancing st (matcher r ic st) @ [st]"
| "matcher (Rep lo hi r) ic st = rep_exact (matcher r ic) lo (rep_upto (matcher r ic) (hi - lo)) st"
| "matcher (Grp k r) ic st = map (set_cap k st) (matcher r ic st)"
| "matcher WordB ic st = (if at_word_boundary st then [st] else [])"
| "matcher Bol ic st = (if ms_pos st = 0 then [st] else [])"
| "matcher Eol ic st = (if ms_rest st = [] then [st] else [])"

text \<open>What \<open>exec\<close> returns: \<open>index\<close>, the end of the match, \<open>match[0]\<close> and the groups.\<close>

record rmatch =
  m_index :: nat
  m_end :: nat
  m_text :: string
  m_groups :: "(nat \<times> string) list"

definition m_group :: "rmatch \<Rightarrow> nat \<Rightarrow> string option" where
  "m_group mt k = map_of (m_groups mt) k"

definition mk_match :: "mstate \<Rightarrow> mstate \<Rightarrow> rmatch" where
  "mk_match st e =
     \<lparr>m_index = ms_pos st, m_end = ms_pos e, m_text = take (ms_pos e - ms_pos st) (ms_rest st),
      m_groups = ms_caps e\<rparr>"

text \<open>The search for the first start position at which the pattern matches.\<close>

fun search :: "regex \<Rightarrow> bool \<Rightarrow> char option \<Rightarrow> nat \<Rightarrow> string \<Rightarrow> rmatch option" where
  "search r ic p i [] =
     (let st = \<lparr>ms_prev = p, ms_rest = [], ms_pos = i, ms_caps = []\<rparr> in
      case matcher r ic st of [] \<Rightarrow> None | e # es \<Rightarrow> Some (mk_match st e))"
| "search r ic p i (c # cs) =
     (let st = \<lparr>ms_prev = p, ms_rest = c # cs, ms_pos = i, ms_caps = []\<rparr> in
      case matcher r ic st of
        [] \<Rightarrow> search r ic (Some c) (Suc i) cs
      | e # es \<Rightarrow> Some (mk_match st e))"

definition prev_at :: "string \<Rightarrow> nat \<Rightarrow> char option" where
  "prev_at s i = (if i = 0 then None else Some (s ! (i - 1)))"

text \<open>
  \<open>exec\<close> and \<open>test\<close> of a regular expression without the flag \<open>g\<close> start at 0 and
  leave \<open>lastIndex\<close> alone.
\<close>

definition re_exec :: "regex \<Rightarrow> bool \<Rightarrow> string \<Rightarrow> rmatch option" where
  "re_exec r ic s = search r ic None 0 s"

definition re_test :: "regex \<Rightarrow> bool \<Rightarrow> string \<Rightarrow> bool" where
  "re_test r ic s = (re_exec r ic s \<noteq> None)"

text \<open>
  With the flag \<open>g\<close>, \<open>exec\<close> and \<open>test\<close> start at \<open>lastIndex\<close> and set it: to the end
  of the match, or to 0 when there is none. The result is paired with the new
  \<open>lastIndex\<close>.
\<close>

definition re_exec_g :: "regex \<Rightarrow> bool \<Rightarrow> string \<Rightarrow> nat \<Rightarrow> rmatch option \<times> nat" where
  "re_exec_g r ic s lastIndex =
     (if lastIndex > length s then (None, 0)
      else (case search r ic (prev_at s lastIndex) lastIndex (drop lastIndex s) of
              None \<Rightarrow> (None, 0)
            | Some mt \<Rightarrow> (Some mt, m_end mt)))"

definition re_test_g :: "regex \<Rightarrow> bool \<Rightarrow> string \<Rightarrow> nat \<Rightarrow> bool \<times> nat" where
  "re_test_g r ic s lastIndex =
     (case re_exec_g r ic s lastIndex of (mt, li) \<Rightarrow> (mt \<noteq> None, li))"

text \<open>
  The loop \<open>while ((match = re.exec(s)) !== null) { ... }\<close> over a regular expression
  with the flag \<open>g\<close> whose body leaves the expression alone visits these matches, from
  \<open>lastIndex\<close> on. A match that does not move \<open>lastIndex\<close> would be found again for
  ever: the loop does not return, which is \<open>None\<close>.
\<close>

function exec_loop :: "regex \<Rightarrow> bool \<Rightarrow> string \<Rightarrow> nat \<Rightarrow> rmatch list option" where
  "exec_loop r ic s lastIndex =
     (case re_exec_g r ic s lastIndex of
        (None, li) \<Rightarrow> Some []
      | (Some mt, li) \<Rightarrow>
          if lastIndex < li \<and> li \<le> length s
          then map_option ((#) mt) (exec_loop r ic s li)
          else None)"
  by pat_completeness auto
termination
  by (relation "measure (\<lambda>(r, ic, s, lastIndex). Suc (length s) - lastIndex)") auto

declare exec_loop.simps [simp del]

text \<open>
  \<open>s.match(re)\<close> and \<open>s.replace(re, r)\<close> with the flag \<open>g\<close> start at 0 and step one
  character further after an empty match.
\<close>

function match_all_from :: "regex \<Rightarrow> bool \<Rightarrow> string \<Rightarrow> nat \<Rightarrow> rmatch list" where
  "match_all_from r ic s i =
     (case re_exec_g r ic s i of
        (None, li) \<Rightarrow> []
      | (Some mt, li) \<Rightarrow>
          let next = (if m_index mt < m_end mt then m_end mt else Suc (m_end mt)) in
          if i < next \<and> i \<le> length s then mt # match_all_from r ic s next
          else [mt])"
  by pat_completeness auto
termination
  by (relation "measure (\<lambda>(r, ic, s, i). Suc (length s) - i)") auto

declare match_all_from.simps [simp del]

definition match_all :: "regex \<Rightarrow> bool \<Rightarrow> string \<Rightarrow> string list" where
  "match_all r ic s = map m_text (match_all_from r ic s 0)"

fun splice :: "string \<Rightarrow> nat \<Rightarrow> rmatch list \<Rightarrow> string \<Rightarrow> string" where
  "splice s i [] repl = drop i s"
| "splice s i (mt # ms) repl = take (m_index mt - i) (drop i s) @ repl @ splice s (m_end mt) ms repl"

definition replace_all :: "regex \<Rightarrow> bool \<Rightarrow> string \<Rightarrow> string \<Rightarrow> string" where
  "replace_all r ic s repl = splice s 0 (match_all_from r ic s 0) repl"

text \<open>\<open>s.replace(re, r)\<close> without the flag \<open>g\<close> replaces the first match.\<close>

definition replace_re :: "regex \<Rightarrow> bool \<Rightarrow> string \<Rightarrow> string \<Rightarrow> string" where
  "replace_re r ic s repl =
     (case re_exec r ic s of
        None \<Rightarrow> s
      | Some mt \<Rightarrow> take (m_index mt) s @ repl @ drop (m_end mt) s)"

text \<open>\<open>s.split(re)[0]\<close>, for an expression that matches one character.\<close>

definition split_first :: "regex \<Rightarrow> bool \<Rightarrow> string \<Rightarrow> string" where
  "split_first r ic s =
     (case re_exec r ic s of
        None \<Rightarrow> s
      | Some mt \<Rightarrow> take (m_index mt) s)"

section \<open>Numbers of the platform\<close>

text \<open>
  A JavaScript number is a double. Its value is a rational, and every arithmetic
  operation returns the exact result rounded to the nearest double, ties to the even
  significand: \<open>fl\<close>, for the normal range (no overflow, no subnormal numbers, which the
  scores and ratios of the extraction module never reach). Counts are integers and exact.
\<close>

type_synonym number = rat

definition pow2 :: "int \<Rightarrow> rat" where
  "pow2 e = (if 0 \<le> e then 2 ^ nat e else 1 / 2 ^ nat (- e))"

definition round_half_even :: "rat \<Rightarrow> int" where
  "round_half_even m =
     (let f = \<lfloor>m\<rfloor>; r = m - of_int f in
      if r < 1 / 2 then f
      else if 1 / 2 < r then f + 1
      else if even f then f else f + 1)"

definition fl :: "rat \<Rightarrow> number" where
  "fl x =
     (if x = 0 then 0
      else
        (case quotient_of \<bar>x\<bar> of
           (p, q) \<Rightarrow>
             let d = bitlen p - bitlen q;
                 e = (if pow2 d \<le> \<bar>x\<bar> then d else d - 1);
                 n = round_half_even (\<bar>x\<bar> * pow2 (52 - e))
             in sgn x * of_int n * pow2 (e - 52)))"

text \<open>A decimal literal \<open>m \<times> 10\<^sup>-\<^sup>k\<close>, such as \<open>0.85 = dec 85 2\<close>.\<close>

definition dec :: "int \<Rightarrow> nat \<Rightarrow> number" where
  "dec m k = fl (of_int m / 10 ^ k)"

definition js_add :: "number \<Rightarrow> number \<Rightarrow> number" where
  "js_add a b = fl (a + b)"

definition js_sub :: "number \<Rightarrow> number \<Rightarrow> number" where
  "js_sub a b = fl (a - b)"

definition js_mul :: "number \<Rightarrow> number \<Rightarrow> number" where
  "js_mul a b = fl (a * b)"

definition js_div :: "number \<Rightarrow> number \<Rightarrow> number" where
  "js_div a b = fl (a / b)"

text \<open>\<open>Math.round\<close>: the nearest integer, a tie going up.\<close>

definition math_round :: "number \<Rightarrow> int" where
  "math_round x = \<lfloor>x + 1 / 2\<rfloor>"

section \<open>Building patterns\<close>

fun seqs :: "regex list \<Rightarrow> regex" where
  "seqs [] = Lit []"
| "seqs [r] = r"
| "seqs (r # rs) = Seq r (seqs rs)"

fun alts :: "regex list \<Rightarrow> regex" where
  "alts [] = Lit []"
| "alts [r] = r"
| "alts (r # rs) = Alt r (alts rs)"

definition DQ :: char where
  "DQ = CHR 0x22"

definition LF :: char where
  "LF = CHR 0x0A"

definition ws :: regex where
  "ws = Star (Cls [Space])"

section \<open>Stack detection\<close>

record SourceInfo =
  sourceType :: string
  sourceUrl :: string
  sampleSnippet :: string
  confidence :: number

record pattern =
  p_regex :: regex
  p_weight :: number
  p_description :: string

record StackDetector =
  d_name :: string
  d_category :: string
  d_patterns :: "pattern list"

record StackSignal =
  ss_name :: string
  ss_category :: string
  ss_confidence :: number
  ss_evidence :: "string list"
  ss_sourceUrls :: "string list"

text \<open>Every pattern of the table has the flag \<open>i\<close> and no other.\<close>

definition pat :: "regex \<Rightarrow> number \<Rightarrow> string \<Rightarrow> pattern" where
  "pat r w d = \<lparr>p_regex = r, p_weight = w, p_description = d\<rparr>"

definition STACK_DETECTORS :: "StackDetector list" where
  "STACK_DETECTORS =
   [\<lparr>d_name = ''Next.js'', d_category = ''framework'',
     d_patterns =
       [pat (Lit ''__NEXT_DATA__'') (dec 9 1) ''__NEXT_DATA__ script'',
        pat (Lit ''/_next/'') (dec 8 1) ''/_next/ assets'',
        pat (Lit ''next/head'') (dec 7 1) ''next/head import'',
        pat (Lit ''data-nscript'') (dec 6 1) ''Next.js script attribute'']\<rparr>,
    \<lparr>d_name = ''React'', d_category = ''framework'',
     d_patterns =
       [pat (Lit ''data-reactroot'') (dec 9 1) ''data-reactroot attribute'',
        pat (Lit ''__REACT_DEVTOOLS'') (dec 8 1) ''React DevTools'',
        pat (seqs [Lit ''react'', Opt (Lit ''.min''), Lit ''.js'']) (dec 7 1) ''React bundle'',
        pat (Lit ''react-dom'') (dec 6 1) ''react-dom reference'']\<rparr>,
    \<lparr>d_name = ''Vue.js'', d_category = ''framework'',
     d_patterns =
       [pat (seqs [Lit ''data-v-'', Plus (Cls [Rng CHR ''a'' CHR ''f'', Rng CHR ''0'' CHR ''9''])])
          (dec 9 1) ''Vue scoped style attribute'',
        pat (Lit ''__VUE__'') (dec 8 1) ''__VUE__ global'',
        pat (seqs [Lit ''vue'', Opt (Lit ''.min''), Lit ''.js'']) (dec 7 1) ''Vue bundle'']\<rparr>,
    \<lparr>d_name = ''Nuxt'', d_category = ''framework'',
     d_patterns =
       [pat (Lit ''__NUXT__'') (dec 9 1) ''__NUXT__ data'',
        pat (Lit ''/_nuxt/'') (dec 8 1) ''/_nuxt/ assets'']\<rparr>,
    \<lparr>d_name = ''Svelte'', d_category = ''framework'',
     d_patterns =
       [pat (seqs [Lit ''svelte-'', Plus (Cls [Rng CHR ''a'' CHR ''z'', Rng CHR ''0'' CHR ''9''])])
          (dec 8 1) ''Svelte class pattern'',
        pat (Lit ''__svelte'') (dec 9 1) ''__svelte marker'']\<rparr>,
    \<lparr>d_name = ''Tailwind CSS'', d_category = ''css-framework'',
     d_patterns =
       [pat (Lit ''tailwindcss'') (dec 9 1) ''tailwindcss reference'',
        pat (seqs [Lit ''--tw-'', Plus (Cls [Rng CHR ''a'' CHR ''z'', Ch CHR ''-''])])
          (dec 85 2) ''Tailwind CSS variable'',
        pat (seqs [WordB, Lit (''class='' @ [DQ]), Star (NCls [Ch DQ]),
                   alts [Lit ''bg-'', Lit ''text-'', Lit ''flex'', Lit ''grid'', Lit ''p-'',
                         Lit ''m-'', Lit ''w-'', Lit ''h-''],
                   Star (NCls [Ch DQ]), Lit [DQ]])
          (dec 6 1) ''Tailwind utility classes'',
        pat (seqs [WordB, alts [Lit ''sm:'', Lit ''md:'', Lit ''lg:'', Lit ''xl:'', Lit ''2xl:''],
                   Cls [Rng CHR ''a'' CHR ''z'']])
          (dec 7 1) ''Tailwind breakpoint prefix'']\<rparr>,
    \<lparr>d_name = ''shadcn/ui'', d_category = ''ui-library'',
     d_patterns =
       [pat (Lit ''@radix-ui'') (dec 8 1) ''@radix-ui import'',
        pat (seqs [WordB, Lit ''cn'', ws, Lit ''('']) (dec 6 1) ''cn() utility function'',
        pat (Lit ''data-[state='') (dec 7 1) ''Radix state attribute'',
        pat (Lit ''class-variance-authority'') (dec 8 1) ''CVA import'']\<rparr>,
    \<lparr>d_name = ''Bootstrap'', d_category = ''css-framework'',
     d_patterns =
       [pat (seqs [Lit ''bootstrap'', Opt (Lit ''.min''), Lit ''.css'']) (dec 9 1) ''Bootstrap CSS'',
        pat (seqs [WordB, Lit (''class='' @ [DQ]), Star (NCls [Ch DQ]),
                   alts [Lit ''container'', Lit ''row'', Lit ''col-''],
                   Star (NCls [Ch DQ]), Lit [DQ]])
          (dec 7 1) ''Bootstrap grid classes'',
        pat (seqs [WordB, Lit ''btn-'',
                   alts [Lit ''primary'', Lit ''secondary'', Lit ''success'', Lit ''danger'']])
          (dec 8 1) ''Bootstrap button classes'']\<rparr>,
    \<lparr>d_name = ''Material UI'', d_category = ''ui-library'',
     d_patterns =
       [pat (Lit ''@mui/'') (dec 9 1) ''@mui/ import'',
        pat (alts [Lit ''MuiButton'', Lit ''MuiCard'', Lit ''MuiTypography''])
          (dec 8 1) ''MUI component class'',
        pat (Lit ''__emotion'') (dec 5 1) ''Emotion (MUI styling)'']\<rparr>,
    \<lparr>d_name = ''Chakra UI'', d_category = ''ui-library'',
     d_patterns =
       [pat (Lit ''@chakra-ui'') (dec 9 1) ''@chakra-ui import'',
        pat (Lit ''chakra-'') (dec 7 1) ''Chakra class prefix'']\<rparr>,
    \<lparr>d_name = ''Vite'', d_category = ''build-tool'',
     d_patterns =
       [pat (Lit ''@vite'') (dec 8 1) ''@vite reference'',
        pat (Lit ''vite.config'') (dec 9 1) ''Vite config'']\<rparr>,
    \<lparr>d_name = ''Webpack'', d_category = ''build-tool'',
     d_patterns =
       [pat (Lit ''webpackJsonp'') (dec 8 1) ''Webpack runtime'',
        pat (Lit ''__webpack_require__'') (dec 9 1) ''Webpack require'']\<rparr>]"

text \<open>The three variables the loop over a detector's patterns updates.\<close>

record det_vars =
  evidence :: "string list"
  sourceUrls :: "string list"
  maxConfidence :: number

definition all_content :: "CrawlSession \<Rightarrow> string" where
  "all_content session = join [LF] (map fullHtml (pages session) @ map snd (cssContents session))"

definition pattern_step :: "CrawlSession \<Rightarrow> string \<Rightarrow> det_vars \<Rightarrow> pattern \<Rightarrow> det_vars" where
  "pattern_step session allContent v p =
     (if re_test (p_regex p) True allContent then
        let urls1 = foldl (\<lambda>urls page.
                             if re_test (p_regex p) True (fullHtml page)
                             then set_add urls (finalUrl page) else urls)
                      (sourceUrls v) (pages session);
            urls2 = foldl (\<lambda>urls (u, css).
                             if re_test (p_regex p) True css then set_add urls u else urls)
                      urls1 (cssContents session)
        in \<lparr>evidence = evidence v @ [p_description p],
            sourceUrls = urls2,
            maxConfidence = max (maxConfidence v) (p_weight p)\<rparr>
      else v)"

definition detector_step ::
  "CrawlSession \<Rightarrow> string \<Rightarrow> (string \<times> StackSignal) list \<Rightarrow> StackDetector
     \<Rightarrow> (string \<times> StackSignal) list" where
  "detector_step session allContent signals detector =
     (let v = foldl (pattern_step session allContent)
                \<lparr>evidence = [], sourceUrls = [], maxConfidence = 0\<rparr> (d_patterns detector)
      in
      if length (evidence v) > 0 then
        let confidenceBoost = min (js_mul (dec 1 1) (of_nat (length (evidence v)) - 1)) (dec 15 2);
            finalConfidence = min (js_add (maxConfidence v) confidenceBoost) 1
        in map_set signals (d_name detector)
             \<lparr>ss_name = d_name detector, ss_category = d_category detector,
              ss_confidence = finalConfidence, ss_evidence = evidence v,
              ss_sourceUrls = sourceUrls v\<rparr>
      else signals)"

text \<open>
  \<open>Array.prototype.sort\<close> is stable; with the comparator \<open>b.confidence - a.confidence\<close>
  it is the stable sort by falling confidence.
\<close>

definition detectStack_with :: "StackDetector list \<Rightarrow> CrawlSession \<Rightarrow> StackSignal list" where
  "detectStack_with detectors session =
     (let allContent = all_content session;
          signals = foldl (detector_step session allContent) [] detectors
      in sort_key (\<lambda>s. - ss_confidence s) (map snd signals))"

definition detectStack :: "CrawlSession \<Rightarrow> StackSignal list" where
  "detectStack session = detectStack_with STACK_DETECTORS session"

subsection \<open>The signal of one detector, in closed form\<close>

definition matches_corpus :: "CrawlSession \<Rightarrow> pattern \<Rightarrow> bool" where
  "matches_corpus session p = re_test (p_regex p) True (all_content session)"

definition matching :: "CrawlSession \<Rightarrow> StackDetector \<Rightarrow> pattern list" where
  "matching session detector = filter (matches_corpus session) (d_patterns detector)"

definition add_urls :: "CrawlSession \<Rightarrow> string list \<Rightarrow> pattern \<Rightarrow> string list" where
  "add_urls session urls p =
     foldl (\<lambda>urls (u, css). if re_test (p_regex p) True css then set_add urls u else urls)
       (foldl (\<lambda>urls page. if re_test (p_regex p) True (fullHtml page)
                             then set_add urls (finalUrl page) else urls)
          urls (pages session))
       (cssContents session)"

text \<open>\<open>min(maxWeight + min(0.1 * (evidenceCount - 1), 0.15), 1)\<close>, in doubles.\<close>

definition boosted_confidence :: "number \<Rightarrow> nat \<Rightarrow> number" where
  "boosted_confidence maxWeight evidenceCount =
     min (js_add maxWeight (min (js_mul (dec 1 1) (of_nat evidenceCount - 1)) (dec 15 2))) 1"

definition signal_of :: "CrawlSession \<Rightarrow> StackDetector \<Rightarrow> StackSignal option" where
  "signal_of session detector =
     (let ms = matching session detector in
      if ms = [] then None
      else Some \<lparr>ss_name = d_name detector, ss_category = d_category detector,
                 ss_confidence = boosted_confidence (Max (set (map p_weight ms))) (length ms),
                 ss_evidence = map p_description ms,
                 ss_sourceUrls = foldl (add_urls session) [] ms\<rparr>)"

definition page_of :: "string \<Rightarrow> string \<Rightarrow> CrawledPage" where
  "page_of u html =
     \<lparr>pg_url = u, finalUrl = u, pg_status = 200, pg_headers = [],
      htmlSnippet = take 2000 html, fullHtml = html, cssLinks = [], jsLinks = [],
      internalLinks = [], crawledAt = ''2026-01-01T00:00:00.000Z'', pg_error = None\<rparr>"

definition session_of :: "string list \<Rightarrow> (string \<times> string) list \<Rightarrow> CrawlSession" where
  "session_of htmls css =
     \<lparr>startUrl = ''https://example.com/'',
      pages = map (page_of ''https://example.com/'') htmls,
      cssContents = css, robotsTxtStatus = ''allowed'', robotsTxtWarning = None,
      totalRequests = int (length htmls + length css), failedRequests = 0, crawlDuration = 0\<rparr>"

definition next_markup :: string where
  "next_markup = ''<script id=__NEXT_DATA__></script><script src=/_next/static/chunk.js>''"

section \<open>CSS variable and color extraction\<close>

definition ident_char :: "cls_item list" where
  "ident_char = [Rng CHR ''a'' CHR ''z'', Rng CHR ''A'' CHR ''Z'', Rng CHR ''0'' CHR ''9'',
                 Ch CHR ''_'', Ch CHR ''-'']"

text \<open>\<open>/--([a-zA-Z0-9_-]+)\s*:\s*([^;}\n]+)/g\<close>\<close>

definition CSS_VAR_REGEX :: regex where
  "CSS_VAR_REGEX =
     seqs [Lit ''--'', Grp 1 (Plus (Cls ident_char)), ws, Lit '':'', ws,
           Grp 2 (Plus (NCls [Ch CHR '';'', Ch CHR ''}'', Ch LF]))]"

text \<open>\<open>/#([a-fA-F0-9]{3,8})\b|rgba?\s*\([^)]+\)|hsla?\s*\([^)]+\)/gi\<close>\<close>

definition COLOR_REGEX :: regex where
  "COLOR_REGEX =
     alts [seqs [Lit ''#'',
                 Grp 1 (Rep 3 8 (Cls [Rng CHR ''a'' CHR ''f'', Rng CHR ''A'' CHR ''F'',
                                      Rng CHR ''0'' CHR ''9''])),
                 WordB],
           seqs [Lit ''rgb'', Opt (Lit ''a''), ws, Lit ''('', Plus (NCls [Ch CHR '')'']), Lit '')''],
           seqs [Lit ''hsl'', Opt (Lit ''a''), ws, Lit ''('', Plus (NCls [Ch CHR '')'']), Lit '')'']]"

definition getColorFormat :: "string \<Rightarrow> string" where
  "getColorFormat v =
     (if startsWith v ''#'' then ''hex''
      else if startsWith v ''rgba'' then ''rgba''
      else if startsWith v ''rgb'' then ''rgb''
      else if startsWith v ''hsla'' then ''hsla''
      else if startsWith v ''hsl'' then ''hsl''
      else ''named'')"

definition inferColorUsage :: "string \<Rightarrow> string" where
  "inferColorUsage name =
     (let lowerName = toLowerCase name in
      if re_test (alts [Lit ''background'', Lit ''bg'']) True lowerName then ''background''
      else if re_test (alts [Lit ''foreground'', Lit ''fg'', Lit ''text'']) True lowerName
        then ''foreground''
      else if re_test (Lit ''primary'') True lowerName then ''primary''
      else if re_test (Lit ''secondary'') True lowerName then ''secondary''
      else if re_test (Lit ''accent'') True lowerName then ''accent''
      else if re_test (Lit ''border'') True lowerName then ''border''
      else ''unknown'')"

record ColorToken =
  ct_name :: string
  ct_value :: string
  ct_format :: string
  ct_usage :: string
  ct_source :: SourceInfo

text \<open>
  A group of a match, where every group of the pattern takes part in every match (the
  destructuring \<open>[fullMatch, name, value] = match\<close>).
\<close>

definition grp :: "rmatch \<Rightarrow> nat \<Rightarrow> string" where
  "grp mt k = (case m_group mt k of None \<Rightarrow> [] | Some g \<Rightarrow> g)"

text \<open>
  The body of the loop of \<open>extractColors\<close> over the matches of \<open>CSS_VAR_REGEX\<close>. The
  module-level \<open>COLOR_REGEX\<close> has the flag \<open>g\<close>: its \<open>lastIndex\<close> is read by \<open>test\<close>, set
  by \<open>test\<close> and \<open>exec\<close>, and assigned 0 between the two. It is threaded through the loop
  with the map \<open>colors\<close>.
\<close>

fun colors_loop :: "string \<Rightarrow> rmatch list \<Rightarrow> (string \<times> ColorToken) list \<Rightarrow> nat
     \<Rightarrow> (string \<times> ColorToken) list \<times> nat" where
  "colors_loop srcUrl [] colors lastIndex = (colors, lastIndex)"
| "colors_loop srcUrl (mt # rest) colors lastIndex =
     (let fullMatch = m_text mt; name = grp mt 1; val = grp mt 2;
          trimmedValue = trim val
      in
      case re_test_g COLOR_REGEX True trimmedValue lastIndex of
        (False, li1) \<Rightarrow> colors_loop srcUrl rest colors li1
      | (True, li1) \<Rightarrow>
          (case re_exec_g COLOR_REGEX True trimmedValue 0 of
             (None, li2) \<Rightarrow> colors_loop srcUrl rest colors li2
           | (Some colorMatch, li2) \<Rightarrow>
               let colorValue = m_text colorMatch in
               if colorValue \<in> fst ` set colors then colors_loop srcUrl rest colors li2
               else colors_loop srcUrl rest
                      (map_set colors colorValue
                         \<lparr>ct_name = ''--'' @ name,
                          ct_value = colorValue,
                          ct_format = getColorFormat colorValue,
                          ct_usage = inferColorUsage name,
                          ct_source = \<lparr>sourceType = ''css'', sourceUrl = srcUrl,
                                       sampleSnippet = take 80 fullMatch,
                                       confidence = dec 85 2\<rparr>\<rparr>)
                      li2))"

text \<open>
  \<open>extractColors(css, sourceUrl)\<close>, from a given \<open>COLOR_REGEX.lastIndex\<close>: the tokens and
  the \<open>lastIndex\<close> the call leaves behind. \<open>None\<close> is a call that does not return.
\<close>

definition extractColors :: "string \<Rightarrow> string \<Rightarrow> nat \<Rightarrow> (ColorToken list \<times> nat) option" where
  "extractColors css srcUrl lastIndex =
     (case exec_loop CSS_VAR_REGEX False css 0 of
        None \<Rightarrow> None
      | Some ms \<Rightarrow>
          (case colors_loop srcUrl ms [] lastIndex of
             (colors, li) \<Rightarrow> Some (map snd colors, li)))"

text \<open>The example stylesheet of the specification.\<close>

definition primary_bg_css :: string where
  "primary_bg_css = '':root{--color-primary-bg:#102030;}''"

subsection \<open>Usage inference as a table of keywords\<close>



subsection \<open>Containing a keyword\<close>





section \<open>Typography scale extraction\<close>

text \<open>\<open>/<style[^>]*>([\s\S]*?)<\/style>/gi\<close> and \<open>/<\/?style[^>]*>/gi\<close>\<close>

definition STYLE_BLOCK :: regex where
  "STYLE_BLOCK =
     seqs [Lit ''<style'', Star (NCls [Ch CHR ''>'']), Lit ''>'',
           Grp 1 (LazyStar (Cls [Space, NonSpace])), Lit ''</style>'']"

definition STYLE_TAG :: regex where
  "STYLE_TAG = seqs [Lit ''<'', Opt (Lit ''/''), Lit ''style'', Star (NCls [Ch CHR ''>'']), Lit ''>'']"

definition inline_styles :: "string \<Rightarrow> string list" where
  "inline_styles html = map (\<lambda>m. replace_all STYLE_TAG True m []) (match_all STYLE_BLOCK True html)"

definition all_css :: "CrawlSession \<Rightarrow> string" where
  "all_css session =
     join [LF] (concat (map (\<lambda>p. inline_styles (fullHtml p)) (pages session))
                @ map snd (cssContents session))"

text \<open>\<open>/\b(h[1-6])\s*\{([^}]+)\}/gi\<close>, \<open>/\bbody\s*\{([^}]+)\}/gi\<close> and
  \<open>/font-family\s*:\s*([^;}\n]+)/gi\<close>\<close>

definition headingRegex :: regex where
  "headingRegex =
     seqs [WordB, Grp 1 (Seq (Lit ''h'') (Cls [Rng CHR ''1'' CHR ''6''])), ws, Lit ''{'',
           Grp 2 (Plus (NCls [Ch CHR ''}''])), Lit ''}'']"

definition bodyRegex :: regex where
  "bodyRegex = seqs [WordB, Lit ''body'', ws, Lit ''{'', Grp 1 (Plus (NCls [Ch CHR ''}''])), Lit ''}'']"

definition FONT_FAMILY_REGEX :: regex where
  "FONT_FAMILY_REGEX =
     seqs [Lit ''font-family'', ws, Lit '':'', ws,
           Grp 1 (Plus (NCls [Ch CHR '';'', Ch CHR ''}'', Ch LF]))]"

text \<open>\<open>styles.match(/prop\s*:\s*([^;]+)/i)?.[1]?.trim()\<close>\<close>

definition sub_decl :: "string \<Rightarrow> string \<Rightarrow> string option" where
  "sub_decl prop styles =
     (case re_exec (seqs [Lit prop, ws, Lit '':'', ws, Grp 1 (Plus (NCls [Ch CHR '';'']))]) True styles of
        None \<Rightarrow> None
      | Some mt \<Rightarrow> map_option trim (m_group mt 1))"

record heading =
  h_tag :: string
  h_fontSize :: "string option"
  h_fontWeight :: "string option"
  h_lineHeight :: "string option"
  h_fontFamily :: "string option"
  h_source :: SourceInfo

record body_text =
  b_fontSize :: "string option"
  b_lineHeight :: "string option"
  b_fontFamily :: "string option"
  b_source :: SourceInfo

record ExtractedValue =
  ev_value :: string
  ev_source :: SourceInfo

record TypographyScale =
  headings :: "heading list"
  bodyText :: "body_text option"
  fontFamilies :: "ExtractedValue list"

definition heading_of :: "string \<Rightarrow> rmatch \<Rightarrow> heading" where
  "heading_of start mt =
     (let tag = toLowerCase (grp mt 1); styles = grp mt 2 in
      \<lparr>h_tag = tag,
       h_fontSize = sub_decl ''font-size'' styles,
       h_fontWeight = sub_decl ''font-weight'' styles,
       h_lineHeight = sub_decl ''line-height'' styles,
       h_fontFamily = sub_decl ''font-family'' styles,
       h_source = \<lparr>sourceType = ''css'', sourceUrl = start,
                    sampleSnippet = take 100 (m_text mt), confidence = dec 8 1\<rparr>\<rparr>)"

definition body_of :: "string \<Rightarrow> rmatch \<Rightarrow> body_text" where
  "body_of start mt =
     (let styles = grp mt 1 in
      \<lparr>b_fontSize = sub_decl ''font-size'' styles,
       b_lineHeight = sub_decl ''line-height'' styles,
       b_fontFamily = sub_decl ''font-family'' styles,
       b_source = \<lparr>sourceType = ''css'', sourceUrl = start,
                    sampleSnippet = take 100 (m_text mt), confidence = dec 8 1\<rparr>\<rparr>)"

text \<open>The three \<open>while\<close> loops, over the matches they visit.\<close>

fun headings_loop :: "string \<Rightarrow> rmatch list \<Rightarrow> heading list \<Rightarrow> heading list" where
  "headings_loop start [] hs = hs"
| "headings_loop start (mt # ms) hs = headings_loop start ms (hs @ [heading_of start mt])"

fun fonts_loop :: "string \<Rightarrow> rmatch list \<Rightarrow> string set \<Rightarrow> ExtractedValue list
     \<Rightarrow> ExtractedValue list" where
  "fonts_loop start [] seenFonts fs = fs"
| "fonts_loop start (mt # ms) seenFonts fs =
     (let v = trim (grp mt 1) in
      if v \<notin> seenFonts then
        fonts_loop start ms (insert v seenFonts)
          (fs @ [\<lparr>ev_value = v,
                   ev_source = \<lparr>sourceType = ''css'', sourceUrl = start,
                                sampleSnippet = take 80 (m_text mt), confidence = dec 75 2\<rparr>\<rparr>])
      else fonts_loop start ms seenFonts fs)"

fun body_loop :: "string \<Rightarrow> rmatch list \<Rightarrow> body_text option \<Rightarrow> body_text option" where
  "body_loop start [] b = b"
| "body_loop start (mt # ms) b = body_loop start ms (Some (body_of start mt))"

text \<open>\<open>None\<close> is a call that does not return.\<close>

definition extractTypographyScale :: "CrawlSession \<Rightarrow> TypographyScale option" where
  "extractTypographyScale session =
     (let allCSS = all_css session in
      case exec_loop headingRegex True allCSS 0 of
        None \<Rightarrow> None
      | Some hms \<Rightarrow>
          (case exec_loop FONT_FAMILY_REGEX True allCSS 0 of
             None \<Rightarrow> None
           | Some fms \<Rightarrow>
               (case exec_loop bodyRegex True allCSS 0 of
                  None \<Rightarrow> None
                | Some bms \<Rightarrow>
                    Some \<lparr>headings = headings_loop (startUrl session) hms [],
                          bodyText = body_loop (startUrl session) bms None,
                          fontFamilies = fonts_loop (startUrl session) fms {} []\<rparr>)))"

text \<open>The least number of characters a match of a pattern takes.\<close>

primrec min_len :: "regex \<Rightarrow> nat" where
  "min_len (Lit p) = length p"
| "min_len (Cls items) = 1"
| "min_len (NCls items) = 1"
| "min_len (Seq a b) = min_len a + min_len b"
| "min_len (Alt a b) = min (min_len a) (min_len b)"
| "min_len (Star r) = 0"
| "min_len (LazyStar r) = 0"
| "min_len (Plus r) = min_len r"
| "min_len (Opt r) = 0"
| "min_len (Rep lo hi r) = lo * min_len r"
| "min_len (Grp k r) = min_len r"
| "min_len WordB = 0"
| "min_len Bol = 0"
| "min_len Eol = 0"

definition two_h1_css :: string where
  "two_h1_css = ''h1{font-size:2rem}body{font-size:14px}h1{font-size:3rem;font-weight:700}body{line-height:1.5}''"

section \<open>Component pattern detection\<close>

record ComponentPattern =
  cp_name :: string
  cp_type :: string
  classPatterns :: "string list"
  hasHoverState :: bool
  hasFocusState :: bool
  hasActiveState :: bool
  cp_source :: SourceInfo

text \<open>\<open>/\.name[^{]*\{/gi\<close>\<close>

definition rule_of :: "string \<Rightarrow> regex" where
  "rule_of name = seqs [Lit (CHR ''.'' # name), Star (NCls [Ch CHR ''{'']), Lit ''{'']"

definition componentPatterns :: "(string \<times> regex list) list" where
  "componentPatterns =
     [(''button'', [rule_of ''btn'', rule_of ''button'', Lit (''[class*='' @ [DQ] @ ''btn'' @ [DQ] @ '']'')]),
      (''card'', [rule_of ''card'', Lit ''.card-body'', Lit ''.card-header'']),
      (''nav'', [rule_of ''nav'', rule_of ''navbar'', rule_of ''navigation'']),
      (''hero'', [rule_of ''hero'', Lit ''.hero-section'', rule_of ''banner'']),
      (''form'', [rule_of ''form'', Lit ''.form-group'', Lit ''.form-control'']),
      (''input'', [rule_of ''input'', Lit ''input[type'', Lit ''.text-field'']),
      (''modal'', [rule_of ''modal'', rule_of ''dialog'', Lit (''[role='' @ [DQ] @ ''dialog'' @ [DQ] @ '']'')])]"

text \<open>The loop over the three patterns of a type, pushing to \<open>classPatterns\<close>.\<close>

fun class_loop :: "string \<Rightarrow> regex list \<Rightarrow> string list \<Rightarrow> string list option" where
  "class_loop allCSS [] acc = Some acc"
| "class_loop allCSS (r # rs) acc =
     (case exec_loop r True allCSS 0 of
        None \<Rightarrow> None
      | Some ms \<Rightarrow>
          class_loop allCSS rs
            (acc @ map (\<lambda>m. trim (replace_re (Seq (Lit ''{'') Eol) False (m_text m) [])) ms))"

text \<open>\<open>new RegExp(`\\.${baseClass}[^{]*:state`, 'i')\<close>, for a base class of identifier
  characters.\<close>

definition state_regex :: "string \<Rightarrow> string \<Rightarrow> regex" where
  "state_regex baseClass state =
     seqs [Lit ''.'', Lit baseClass, Star (NCls [Ch CHR ''{'']), Lit (CHR '':'' # state)]"

fun component_loop :: "string \<Rightarrow> string \<Rightarrow> (string \<times> regex list) list \<Rightarrow> ComponentPattern list
     \<Rightarrow> ComponentPattern list option" where
  "component_loop start allCSS [] patterns = Some patterns"
| "component_loop start allCSS ((type, regexPatterns) # rest) patterns =
     (case class_loop allCSS regexPatterns [] of
        None \<Rightarrow> None
      | Some cps \<Rightarrow>
          if length cps > 0 then
            let baseClass = split_first (NCls ident_char) False
                              (replace_re (Seq Bol (Lit ''.'')) False (hd cps) [])
            in component_loop start allCSS rest
                 (patterns @
                  [\<lparr>cp_name = type, cp_type = type,
                    classPatterns = take 5 (foldl set_add [] cps),
                    hasHoverState = re_test (state_regex baseClass ''hover'') True allCSS,
                    hasFocusState = re_test (state_regex baseClass ''focus'') True allCSS,
                    hasActiveState = re_test (state_regex baseClass ''active'') True allCSS,
                    cp_source = \<lparr>sourceType = ''css'', sourceUrl = start,
                                 sampleSnippet = hd cps, confidence = dec 7 1\<rparr>\<rparr>])
          else component_loop start allCSS rest patterns)"

definition detectComponentPatterns :: "CrawlSession \<Rightarrow> ComponentPattern list option" where
  "detectComponentPatterns session =
     (let allHTML = join [LF] (map fullHtml (pages session));
          allCSS = join [LF] (map snd (cssContents session))
      in component_loop (startUrl session) allCSS componentPatterns [])"

section \<open>Accessibility signal detection\<close>

record AccessibilitySignal =
  feature :: string
  present :: bool
  details :: "string option"
  a_source :: SourceInfo

definition html_source :: "string \<Rightarrow> string \<Rightarrow> number \<Rightarrow> SourceInfo" where
  "html_source start snippet c =
     \<lparr>sourceType = ''html'', sourceUrl = start, sampleSnippet = snippet, confidence = c\<rparr>"

text \<open>\<open>/<img[^>]*>/gi\<close> and \<open>/alt=/i\<close>\<close>

definition img_tags :: "string \<Rightarrow> string list" where
  "img_tags allHTML = match_all (seqs [Lit ''<img'', Star (NCls [Ch CHR ''>'']), Lit ''>'']) True allHTML"

definition img_with_alt :: "string list \<Rightarrow> nat" where
  "img_with_alt imgTags = length (filter (re_test (Lit ''alt='') True) imgTags)"

definition alt_coverage :: "string list \<Rightarrow> number" where
  "alt_coverage imgTags =
     (if length imgTags > 0
      then js_div (of_nat (img_with_alt imgTags)) (of_nat (length imgTags))
      else 1)"

definition alt_signal :: "string \<Rightarrow> string \<Rightarrow> AccessibilitySignal" where
  "alt_signal start allHTML =
     (let imgTags = img_tags allHTML;
          imgWithAlt = img_with_alt imgTags;
          altCoverage = alt_coverage imgTags
      in \<lparr>feature = ''Image Alt Text'',
          present = (altCoverage > dec 8 1),
          details = Some (show_nat imgWithAlt @ ''/'' @ show_nat (length imgTags)
                          @ '' images have alt text (''
                          @ show_int (math_round (js_mul altCoverage 100)) @ ''%)''),
          a_source = html_source start ''img alt attribute coverage''
                       (if altCoverage > dec 9 1 then dec 9 1
                        else if altCoverage > dec 7 1 then dec 7 1 else dec 5 1)\<rparr>)"

definition landmark :: "string \<Rightarrow> regex" where
  "landmark tag = Seq (Lit (CHR ''<'' # tag)) (Cls [Space, Ch CHR ''>''])"

definition detectAccessibilitySignals :: "CrawlSession \<Rightarrow> AccessibilitySignal list" where
  "detectAccessibilitySignals session =
     (let allHTML = join [LF] (map fullHtml (pages session));
          allCSS = join [LF] (map snd (cssContents session));
          start = startUrl session;
          hasSkipLink =
            re_test (seqs [Lit ''skip'', Opt (Cls [Ch CHR ''-'', Ch CHR '' '']),
                           Opt (Seq (Lit ''to'') (Opt (Cls [Ch CHR ''-'', Ch CHR '' '']))),
                           alts [Lit ''main'', Lit ''content'', Lit ''navigation'']]) True allHTML;
          hasFocusVisible = re_test (Lit '':focus-visible'') True allCSS;
          hasFocusOutline =
            re_test (seqs [Lit '':focus'', Star (NCls [Ch CHR ''}'']), Lit ''outline'']) True allCSS;
          ariaCount =
            length (match_all (seqs [Lit ''aria-'', Plus (Cls [Rng CHR ''a'' CHR ''z'']), Lit ''=''])
                      True allHTML);
          semanticCount =
            length (filter id [re_test (landmark ''nav'') True allHTML,
                               re_test (landmark ''main'') True allHTML,
                               re_test (landmark ''header'') True allHTML,
                               re_test (landmark ''footer'') True allHTML])
      in
      [\<lparr>feature = ''Skip Links'', present = hasSkipLink,
        details = (if hasSkipLink then Some ''Skip navigation link detected'' else None),
        a_source = html_source start ''skip-to-content pattern''
                     (if hasSkipLink then dec 9 1 else dec 5 1)\<rparr>,
       \<lparr>feature = ''Focus Visible Styling'', present = (hasFocusVisible \<or> hasFocusOutline),
        details = (if hasFocusVisible then Some ''Uses :focus-visible pseudo-class''
                   else if hasFocusOutline then Some ''Custom focus outline styling''
                   else None),
        a_source = \<lparr>sourceType = ''css'', sourceUrl = start,
                    sampleSnippet = '':focus-visible or :focus outline'',
                    confidence = (if hasFocusVisible then dec 9 1
                                  else if hasFocusOutline then dec 7 1 else dec 4 1)\<rparr>\<rparr>,
       \<lparr>feature = ''ARIA Attributes'', present = (ariaCount > 5),
        details = Some (''Found '' @ show_nat ariaCount @ '' ARIA attributes''),
        a_source = html_source start (show_nat ariaCount @ '' aria-* attributes'')
                     (if ariaCount > 20 then dec 9 1
                      else if ariaCount > 5 then dec 7 1 else dec 4 1)\<rparr>,
       alt_signal start allHTML,
       \<lparr>feature = ''Semantic HTML'', present = (semanticCount \<ge> 3),
        details = Some (''Uses '' @ show_nat semanticCount
                        @ ''/4 semantic landmarks (nav, main, header, footer)''),
        a_source = html_source start ''semantic HTML elements''
                     (if semanticCount \<ge> 3 then dec 85 2
                      else if semanticCount \<ge> 2 then dec 6 1 else dec 4 1)\<rparr>])"

definition four_images :: string where
  "four_images =
     ''<img src=a.png alt=A><IMG src=b.png ALT=B><img alt= src=c.png><img src=d.png>''"

definition five_tags :: "string list" where
  "five_tags = [''<img alt=a>'', ''<img alt=b>'', ''<img alt=c>'', ''<img alt=d>'', ''<img>'']"

definition btn_page :: string where
  "btn_page = ''<style>.btn{color:red}.btn:hover{color:blue}</style><button class=btn>Go</button>''"

text \<open>
  A matcher state \<open>st'\<close> reached from \<open>st\<close> is at least \<open>n\<close> characters further in the
  same input.
\<close>

definition adv :: "nat \<Rightarrow> mstate \<Rightarrow> mstate \<Rightarrow> bool" where
  "adv n st st' =
     (ms_pos st' + length (ms_rest st') = ms_pos st + length (ms_rest st)
      \<and> length (ms_rest st') + n \<le> length (ms_rest st))"

section \<open>A scripted platform for concrete runs\<close>

text \<open>
  The world is the number of \<open>fetch\<close> calls made so far; the script says what the
  \<open>n\<close>-th call returns. URLs are valid when they start with \<open>https://\<close>, and the origin
  is everything before the first slash of the path.
\<close>

definition test_origin :: "string \<Rightarrow> string option" where
  "test_origin u =
     (if startsWith u ''https://''
      then Some (''https://'' @ takeWhile (\<lambda>c. c \<noteq> CHR ''/'') (drop 8 u))
      else None)"

definition scripted :: "(nat \<Rightarrow> request \<Rightarrow> js_exn + response) \<Rightarrow> nat platform" where
  "scripted f =
     \<lparr>fetch = (\<lambda>w rq. (f w rq, Suc w)),
      setTimeout = (\<lambda>ms w. w),
      date_now = (\<lambda>w. 0),
      date_iso = (\<lambda>w. ''2026-01-01T00:00:00.000Z''),
      url_href = (\<lambda>u. if startsWith u ''https://'' then Some u else None),
      url_resolve = (\<lambda>u b. if startsWith u ''https://'' then Some u else None),
      url_origin = test_origin\<rparr>"

definition io0 :: "nat io" where
  "io0 = \<lparr>world = 0, trace = []\<rparr>"

definition reply :: "int \<Rightarrow> string \<Rightarrow> string \<Rightarrow> js_exn + response" where
  "reply st u body =
     Inr \<lparr>resp_status = st, resp_url = u, resp_contentType = Some ''text/html'',
          resp_text = Inr body\<rparr>"


text \<open>
  A small site. The seed page links to itself and to \<open>/about\<close> and uses one stylesheet,
  which the server does not have. \<open>robots\<close> is what the server answers for
  \<open>/robots.txt\<close>.
\<close>

definition site :: "(js_exn + response) \<Rightarrow> nat \<Rightarrow> request \<Rightarrow> js_exn + response" where
  "site robots n rq =
     (let u = req_url rq in
      if u = ''https://example.com/robots.txt'' then robots
      else if u = ''https://example.com/'' then reply 200 u ''<a href=/about>About</a>''
      else if u = ''https://example.com/about'' then reply 200 u ''<h1>About</h1>''
      else reply 404 u ''Not Found'')"

definition site_links :: "string \<Rightarrow> string \<Rightarrow> links" where
  "site_links html base =
     (if base = ''https://example.com/''
      then \<lparr>l_cssLinks = [''https://example.com/a.css''], l_jsLinks = [],
            l_internalLinks = [''https://example.com/'', ''https://example.com/about'']\<rparr>
      else \<lparr>l_cssLinks = [''https://example.com/a.css''], l_jsLinks = [],
            l_internalLinks = [''https://example.com/'']\<rparr>)"

definition site_config :: "int \<Rightarrow> bool \<Rightarrow> ExtractorConfig" where
  "site_config n assets =
     \<lparr>themeUrl = ''https://example.com/'', maxPages = n, sameOriginOnly = True,
      includeAssets = assets, mode = ''both'', cfg_notes = ''''\<rparr>"

definition robots_blocking :: "js_exn + response" where
  "robots_blocking =
     reply 200 ''https://example.com/robots.txt'' (''User-agent: *'' @ [CHR 0x0A] @ ''Disallow: /'')"

definition robots_missing :: "js_exn + response" where
  "robots_missing = reply 404 ''https://example.com/robots.txt'' ''Not Found''"

definition robots_unreachable :: "js_exn + response" where
  "robots_unreachable = Inl (JsError ''fetch failed'')"

section \<open>Properties of the fetch gateway\<close>

lemma sleeps_of_append [simp]: "sleeps_of (xs @ ys) = sleeps_of xs @ sleeps_of ys"
  by (induction xs rule: sleeps_of.induct) auto

lemma fetches_of_append [simp]: "fetches_of (xs @ ys) = fetches_of xs @ fetches_of ys"
  by (induction xs rule: fetches_of.induct) auto

lemma trace_emit [simp]: "trace (emit e s) = trace s @ [e]"
  by (simp add: emit_def)

lemma trace_sleep [simp]: "trace (sleep pf d s) = trace s @ [EvSleep d]"
  by (simp add: sleep_def)


lemma req_url_page_request [simp]: "req_url (page_request u) = u"
  by (simp add: page_request_def)











section \<open>Properties of the crawl loop\<close>

lemma fetchPage_url: "fetchPage pf xl u s = (result, s') \<Longrightarrow> cr_url result = u"
  by (auto simp: fetchPage_def failed_result_def Let_def split: prod.splits sum.splits if_splits)

lemma crawl_body_inv:
  assumes "crawl_inv config v" "loop_cond config v" "crawl_body pf xl config v s = (v', s')"
  shows "crawl_inv config v'"
proof -
  from assms(2) obtain u rest where q: "v_queue v = u # rest"
    by (cases "v_queue v") (auto simp: loop_cond_def)
  from assms(2) have lt: "int (length (v_pages v)) < maxPages config"
    by (simp add: loop_cond_def)
  show ?thesis
    using assms(1,3) q lt
    by (auto simp: crawl_body_def crawl_inv_def Let_def image_subset_iff
             split: option.splits if_splits prod.splits dest!: fetchPage_url)
qed

lemma crawl_loop_inv:
  "crawl_inv config v \<Longrightarrow> crawl_loop pf xl config v s = (v', s') \<Longrightarrow>
     crawl_inv config v' \<and> \<not> loop_cond config v'"
proof (induction pf xl config v s rule: crawl_loop.induct)
  case (1 pf extractLinks config v s)
  show ?case
  proof (cases "loop_cond config v")
    case False
    with "1.prems" show ?thesis by (simp add: crawl_loop.simps)
  next
    case True
    obtain v1 s1 where b: "crawl_body pf extractLinks config v s = (v1, s1)"
      by (cases "crawl_body pf extractLinks config v s")
    from True b "1.prems"(2) have "crawl_loop pf extractLinks config v1 s1 = (v', s')"
      by (simp add: crawl_loop.simps[of pf extractLinks config v s])
    moreover have "crawl_inv config v1"
      using crawl_body_inv[OF "1.prems"(1) True b] .
    ultimately show ?thesis
      using "1.IH"[OF True b[symmetric]] by blast
  qed
qed

lemma fetch_assets_pages:
  "fetch_assets pf us v s = (v', s') \<Longrightarrow> v_pages v' = v_pages v"
  by (induction us arbitrary: v s) (auto simp: Let_def split: prod.splits if_splits)

lemma crawl_pages:
  "\<exists>s2 v s. crawl_loop pf xl config (crawl_start config) s2 = (v, s)
      \<and> pages (fst (crawl pf xl config s0)) = v_pages v"
  apply (simp add: crawl_def Let_def crawl_start_def split: prod.splits)
  apply (auto dest: fetch_assets_pages)
  done


text \<open>
  Claim C1. For a configuration with \<open>maxPages\<close> between 1 and 20, the session holds at
  most \<open>maxPages\<close> pages, and no two pages were fetched for the same normalized URL.
  The page list is the one the \<open>while\<close> loop leaves, and the loop leaves it with an
  empty frontier or with exactly \<open>maxPages\<close> pages; it runs another iteration exactly
  when the frontier is not empty and the page count is below \<open>maxPages\<close>.
\<close>

theorem crawl_bounded_and_deduplicated:
  assumes "1 \<le> maxPages config" and "maxPages config \<le> 20"
  shows "int (length (pages (fst (crawl pf xl config s0)))) \<le> maxPages config
     \<and> distinct (map pg_url (pages (fst (crawl pf xl config s0))))
     \<and> (\<exists>s2 v s. crawl_loop pf xl config (crawl_start config) s2 = (v, s)
           \<and> pages (fst (crawl pf xl config s0)) = v_pages v
           \<and> (v_queue v = [] \<or> int (length (v_pages v)) = maxPages config))
     \<and> (\<forall>v s. crawl_loop pf xl config v s =
           (if v_queue v \<noteq> [] \<and> int (length (v_pages v)) < maxPages config
            then crawl_loop pf xl config (fst (crawl_body pf xl config v s))
                   (snd (crawl_body pf xl config v s))
            else (v, s)))"
proof -
  obtain s2 v s where run: "crawl_loop pf xl config (crawl_start config) s2 = (v, s)"
    and pg: "pages (fst (crawl pf xl config s0)) = v_pages v"
    using crawl_pages by blast
  have "crawl_inv config (crawl_start config)"
    using assms by (simp add: crawl_inv_def crawl_start_def)
  from crawl_loop_inv[OF this run] have inv: "crawl_inv config v" and stop: "\<not> loop_cond config v"
    by simp_all
  from inv stop have fin: "v_queue v = [] \<or> int (length (v_pages v)) = maxPages config"
    by (auto simp: crawl_inv_def loop_cond_def)
  have eq: "crawl_loop pf xl config v' s' =
           (if v_queue v' \<noteq> [] \<and> int (length (v_pages v')) < maxPages config
            then crawl_loop pf xl config (fst (crawl_body pf xl config v' s'))
                   (snd (crawl_body pf xl config v' s'))
            else (v', s'))" for v' s'
    by (subst crawl_loop.simps) (simp add: loop_cond_def split: prod.splits)
  from inv pg fin run eq show ?thesis
    unfolding crawl_inv_def by (intro conjI allI) (simp, simp, blast, blast)
qed

lemmas crawl_eval = crawl_def crawl_loop.simps crawl_body_def loop_cond_def fetchPage_def fetchCSS_def
  checkRobotsTxt_def robots_lines.simps robots_request_def robots_catch_def getOrigin_def
  normalizeUrl_def isSameOrigin_def truthy_def set_add_def resp_ok_def failed_result_def
  fetchWithRetry_def fetchWithRetry_loop.simps do_fetch_def emit_def sleep_def page_request_def
  show_int_def show_nat.simps Let_def
  scripted_def test_origin_def io0_def reply_def site_def site_links_def site_config_def
  robots_blocking_def robots_missing_def robots_unreachable_def
  trim_def toLowerCase_def toLower_char_def is_space_def startsWith_def












lemma site_crawl_pages:
  "map pg_url (pages (fst (crawl (scripted (site robots_blocking)) site_links (site_config 2 True) io0)))
     = [''https://example.com/'', ''https://example.com/about'']"
  by (simp add: crawl_eval)

theorem crawl_bounded_and_deduplicated_witness:
  "1 \<le> maxPages (site_config 2 True) \<and> maxPages (site_config 2 True) \<le> 20
   \<and> map pg_url (pages (fst (crawl (scripted (site robots_blocking)) site_links (site_config 2 True) io0)))
       = [''https://example.com/'', ''https://example.com/about'']
   \<and> int (length (pages (fst (crawl (scripted (site robots_blocking)) site_links (site_config 2 True) io0))))
       \<le> maxPages (site_config 2 True)
   \<and> distinct (map pg_url (pages (fst (crawl (scripted (site robots_blocking)) site_links
                                          (site_config 2 True) io0))))"
proof -
  have h1: "1 \<le> maxPages (site_config 2 True)" and h2: "maxPages (site_config 2 True) \<le> 20"
    by (simp_all add: site_config_def)
  from crawl_bounded_and_deduplicated[OF h1 h2, of "scripted (site robots_blocking)" site_links io0]
  have "int (length (pages (fst (crawl (scripted (site robots_blocking)) site_links (site_config 2 True) io0))))
       \<le> maxPages (site_config 2 True)
   \<and> distinct (map pg_url (pages (fst (crawl (scripted (site robots_blocking)) site_links
                                          (site_config 2 True) io0))))"
    by blast
  with h1 h2 site_crawl_pages show ?thesis by blast
qed

subsection \<open>The asset pass\<close>







section \<open>The robots check is advisory\<close>





section \<open>Properties of the rounding to doubles\<close>

text \<open>
  Rounding a positive rational to a double chooses the exponent \<open>e\<close> of its binade,
  \<open>2\<^sup>e \<le> x < 2\<^sup>e\<^sup>+\<^sup>1\<close>, and rounds the significand \<open>x \<times> 2\<^sup>5\<^sup>2\<^sup>-\<^sup>e\<close> to an integer. Rounding is
  monotone, which turns a comparison of a quotient with the literal \<open>0.8\<close> into a
  comparison of integers.
\<close>

lemma pow2_powi: "pow2 e = 2 powi e"
  by (simp add: pow2_def power_int_def field_simps power_inverse)

lemma rhe_cases:
  "round_half_even m = \<lfloor>m\<rfloor> \<and> m - of_int \<lfloor>m\<rfloor> \<le> 1 / 2
   \<or> round_half_even m = \<lfloor>m\<rfloor> + 1 \<and> 1 / 2 \<le> m - of_int \<lfloor>m\<rfloor>"
  by (auto simp: round_half_even_def Let_def)

lemma rhe_mono:
  assumes "m \<le> m'" shows "round_half_even m \<le> round_half_even m'"
proof (cases "m = m'")
  case True then show ?thesis by simp
next
  case False
  with assms have lt: "m < m'" by simp
  have f: "\<lfloor>m\<rfloor> \<le> \<lfloor>m'\<rfloor>" using assms by (rule floor_mono)
  show ?thesis
  proof (cases "\<lfloor>m\<rfloor> = \<lfloor>m'\<rfloor>")
    case True
    with lt have "m - of_int \<lfloor>m\<rfloor> < m' - of_int \<lfloor>m'\<rfloor>" by simp
    with True show ?thesis
      by (auto simp: round_half_even_def Let_def)
  next
    case False
    with f have "\<lfloor>m\<rfloor> + 1 \<le> \<lfloor>m'\<rfloor>" by simp
    moreover have "round_half_even m \<le> \<lfloor>m\<rfloor> + 1" using rhe_cases[of m] by auto
    moreover have "\<lfloor>m'\<rfloor> \<le> round_half_even m'" using rhe_cases[of m'] by auto
    ultimately show ?thesis by linarith
  qed
qed

lemma rhe_int: "round_half_even (of_int k) = k"
  by (simp add: round_half_even_def)

lemma rhe_le: "m \<le> of_int k \<Longrightarrow> round_half_even m \<le> k"
  using rhe_mono[of m "of_int k"] by (simp add: rhe_int)

lemma rhe_ge: "of_int k \<le> m \<Longrightarrow> k \<le> round_half_even m"
  using rhe_mono[of "of_int k" m] by (simp add: rhe_int)


lemma bitlen_powi:
  assumes "0 < p"
  shows "(2::rat) powi (bitlen p - 1) \<le> of_int p" "of_int p < (2::rat) powi bitlen p"
proof -
  from bitlen_bounds[OF assms]
  have a: "2 ^ nat (bitlen p - 1) \<le> p" and b: "p < 2 ^ nat (bitlen p)" by auto
  have pos: "1 \<le> bitlen p"
    using assms bitlen_eq_zero_iff[of p] bitlen_nonneg[of p] by (cases "bitlen p = 0") auto
  from a have "(of_int (2 ^ nat (bitlen p - 1)) :: rat) \<le> of_int p" by (simp only: of_int_le_iff)
  then show "(2::rat) powi (bitlen p - 1) \<le> of_int p"
    using pos by (simp add: power_int_def)
  from b have "(of_int p :: rat) < of_int (2 ^ nat (bitlen p))" by (simp only: of_int_less_iff)
  then show "of_int p < (2::rat) powi bitlen p"
    using pos by (simp add: power_int_def)
qed

lemma fl_shape:
  assumes "0 < x"
  shows "\<exists>e. 2 powi e \<le> x \<and> x < 2 powi (e + 1)
           \<and> fl x = of_int (round_half_even (x * 2 powi (52 - e))) * 2 powi (e - 52)"
proof -
  obtain p q where pq: "quotient_of x = (p, q)" by (cases "quotient_of x")
  have q: "0 < q" using quotient_of_denom_pos[OF pq] .
  have x: "x = of_int p / of_int q" using quotient_of_div[OF pq] .
  have p: "0 < p" using assms q x by (simp add: zero_less_divide_iff)
  define d where "d = bitlen p - bitlen q"
  define e where "e = (if 2 powi d \<le> x then d else d - 1)"
  have qr: "(0::rat) < of_int q" using q by simp
  have lo: "2 powi (d - 1) < x"
  proof -
    have "(2::rat) powi (d - 1) = 2 powi (bitlen p - 1) / 2 powi (bitlen q)"
      by (simp add: d_def power_int_diff)
    also have "\<dots> \<le> of_int p / 2 powi bitlen q"
      using bitlen_powi(1)[OF p] by (simp add: divide_right_mono)
    also have "\<dots> < of_int p / of_int q"
      using bitlen_powi(2)[OF q] p qr by (simp add: divide_strict_left_mono)
    finally show ?thesis by (simp add: x)
  qed
  have hi: "x < 2 powi (d + 1)"
  proof -
    have "x = of_int p / of_int q" by (rule x)
    also have "\<dots> < 2 powi bitlen p / of_int q"
      using bitlen_powi(2)[OF p] qr by (simp add: divide_strict_right_mono)
    also have "\<dots> \<le> 2 powi bitlen p / 2 powi (bitlen q - 1)"
      by (rule divide_left_mono[OF bitlen_powi(1)[OF q]]) (simp_all add: q zero_less_mult_iff)
    also have "\<dots> = 2 powi (d + 1)"
      by (simp add: d_def power_int_diff power_int_add)
    finally show ?thesis .
  qed
  have e1: "2 powi e \<le> x" using lo by (simp add: e_def)
  have e2: "x < 2 powi (e + 1)" using hi by (auto simp: e_def)
  have "fl x = of_int (round_half_even (x * 2 powi (52 - e))) * 2 powi (e - 52)"
    using assms pq by (simp add: fl_def Let_def pow2_powi e_def d_def)
  with e1 e2 show ?thesis by blast
qed


lemma powi2_add: "(2::rat) powi a * 2 powi b = 2 powi (a + b)"
  by (simp add: power_int_add)

lemma powi2_53: "(of_int (2 ^ 53) :: rat) = 2 powi 53" "(of_int (2 ^ 52) :: rat) = 2 powi 52"
  by simp_all

lemma fl_mono:
  assumes "0 < x" "x \<le> y"
  shows "fl x \<le> fl y"
proof -
  from assms have y: "0 < y" by simp
  from fl_shape[OF assms(1)] obtain e where
    e: "2 powi e \<le> x" "x < 2 powi (e + 1)"
       "fl x = of_int (round_half_even (x * 2 powi (52 - e))) * 2 powi (e - 52)" by blast
  from fl_shape[OF y] obtain e' where
    e': "2 powi e' \<le> y" "y < 2 powi (e' + 1)"
       "fl y = of_int (round_half_even (y * 2 powi (52 - e'))) * 2 powi (e' - 52)" by blast
  have "(2::rat) powi e < 2 powi (e' + 1)" using e(1) assms(2) e'(2) by linarith
  have "e < e' + 1"
  proof (rule ccontr)
    assume "\<not> e < e' + 1"
    then have "e' + 1 \<le> e" by simp
    then have "(2::rat) powi (e' + 1) \<le> 2 powi e" by (rule power_int_increasing) simp
    with \<open>(2::rat) powi e < 2 powi (e' + 1)\<close> show False by simp
  qed
  then have le: "e \<le> e'" by simp
  show ?thesis
  proof (cases "e = e'")
    case True
    have "x * 2 powi (52 - e) \<le> y * 2 powi (52 - e)"
      using assms(2) by (simp add: mult_right_mono)
    then have "round_half_even (x * 2 powi (52 - e)) \<le> round_half_even (y * 2 powi (52 - e))"
      by (rule rhe_mono)
    then show ?thesis
      unfolding e(3) e'(3) True[symmetric]
      by (simp add: mult_right_mono)
  next
    case False
    with le have lt: "e + 1 \<le> e'" by simp
    have "x * 2 powi (52 - e) \<le> 2 powi (e + 1) * 2 powi (52 - e)"
      using e(2) by (simp add: mult_right_mono)
    also have "\<dots> = of_int (2 ^ 53)"
      unfolding powi2_53 powi2_add by (rule arg_cong[where f = "power_int 2"]) simp
    finally have "round_half_even (x * 2 powi (52 - e)) \<le> 2 ^ 53" by (rule rhe_le)
    then have "(of_int (round_half_even (x * 2 powi (52 - e))) :: rat) \<le> of_int (2 ^ 53)"
      by (simp only: of_int_le_iff)
    then have "fl x \<le> of_int (2 ^ 53) * 2 powi (e - 52)"
      unfolding e(3) by (rule mult_right_mono) simp
    also have "\<dots> = 2 powi (e + 1)"
      unfolding powi2_53 powi2_add by (rule arg_cong[where f = "power_int 2"]) simp
    also have "\<dots> \<le> 2 powi e'"
      using lt by (simp add: power_int_increasing)
    finally have a: "fl x \<le> 2 powi e'" .
    have "of_int (2 ^ 52) = (2::rat) powi e' * 2 powi (52 - e')"
      unfolding powi2_53 powi2_add by (rule arg_cong[where f = "power_int 2"]) simp
    also have "\<dots> \<le> y * 2 powi (52 - e')"
      using e'(1) by (simp add: mult_right_mono)
    finally have "2 ^ 52 \<le> round_half_even (y * 2 powi (52 - e'))" by (rule rhe_ge)
    then have "(of_int (2 ^ 52) :: rat) \<le> of_int (round_half_even (y * 2 powi (52 - e')))"
      by (simp only: of_int_le_iff)
    then have "of_int (2 ^ 52) * 2 powi (e' - 52) \<le> fl y"
      unfolding e'(3) by (rule mult_right_mono) simp
    moreover have "of_int (2 ^ 52) * 2 powi (e' - 52) = (2::rat) powi e'"
      unfolding powi2_53 powi2_add by (rule arg_cong[where f = "power_int 2"]) simp
    ultimately have b: "2 powi e' \<le> fl y" by simp
    from a b show ?thesis by simp
  qed
qed


lemma threshold_doubles:
  "dec 8 1 = 7205759403792794 / 9007199254740992"
  "fl (4 / 5) = 7205759403792794 / 9007199254740992"
  "fl (7205759403792795 / 9007199254740992) = 7205759403792795 / 9007199254740992"
  "fl 0 = 0"
  by code_simp+

lemma coverage_exceeds_iff:
  assumes "0 < b" "b \<le> 2 ^ 50"
  shows "(dec 8 1 < js_div (of_nat a) (of_nat b)) = (4 * b < 5 * a)"
proof (cases "4 * b < 5 * a")
  case True
  then have "4 * b + 1 \<le> 5 * a" by simp
  then have "(of_nat (4 * b + 1) :: rat) \<le> of_nat (5 * a)" by (simp only: of_nat_le_iff)
  then have k: "4 * (of_nat b :: rat) + 1 \<le> 5 * of_nat a" by simp
  from assms(2) have "(of_nat b :: rat) \<le> of_nat (2 ^ 50)" by (simp only: of_nat_le_iff)
  then have b50: "(of_nat b :: rat) \<le> 1125899906842624" by simp
  have bpos: "(0::rat) < of_nat b" using assms(1) by simp
  have "7205759403792795 / 9007199254740992 * (of_nat b :: rat) \<le> of_nat a"
    using k b50 bpos by linarith
  then have "7205759403792795 / 9007199254740992 \<le> (of_nat a :: rat) / of_nat b"
    using bpos by (simp add: pos_le_divide_eq)
  then have "fl (7205759403792795 / 9007199254740992) \<le> fl (of_nat a / of_nat b)"
    by (rule fl_mono[rotated]) simp
  then have "dec 8 1 < js_div (of_nat a) (of_nat b)"
    unfolding threshold_doubles js_div_def by simp
  with True show ?thesis by simp
next
  case False
  then have "5 * a \<le> 4 * b" by simp
  then have "(of_nat (5 * a) :: rat) \<le> of_nat (4 * b)" by (simp only: of_nat_le_iff)
  then have k: "5 * (of_nat a :: rat) \<le> 4 * of_nat b" by simp
  have bpos: "(0::rat) < of_nat b" using assms(1) by simp
  have le: "(of_nat a :: rat) / of_nat b \<le> 4 / 5"
    using k bpos by (simp add: pos_divide_le_eq)
  have "js_div (of_nat a) (of_nat b) \<le> dec 8 1"
  proof (cases "a = 0")
    case True
    then have "js_div (of_nat a) (of_nat b) = 0"
      by (simp add: js_div_def threshold_doubles(4))
    then show ?thesis unfolding threshold_doubles(1) by simp
  next
    case False
    then have "(0::rat) < of_nat a / of_nat b" using bpos by simp
    from fl_mono[OF this le] show ?thesis
      unfolding js_div_def threshold_doubles .
  qed
  with False show ?thesis by simp
qed

section \<open>Properties of stack detection\<close>

lemma pattern_fold:
  "foldl (pattern_step session (all_content session)) v ps =
     \<lparr>evidence = evidence v @ map p_description (filter (matches_corpus session) ps),
      sourceUrls = foldl (add_urls session) (sourceUrls v) (filter (matches_corpus session) ps),
      maxConfidence = foldl max (maxConfidence v) (map p_weight (filter (matches_corpus session) ps))\<rparr>"
  by (induction ps arbitrary: v)
     (simp_all add: pattern_step_def matches_corpus_def add_urls_def Let_def)

lemma foldl_max_cases:
  fixes ws :: "rat list"
  shows "foldl max a ws = (if ws = [] then a else max a (Max (set ws)))"
proof (induction ws arbitrary: a)
  case Nil
  show ?case by simp
next
  case (Cons w ws)
  show ?case
  proof (cases "ws = []")
    case True
    then show ?thesis by simp
  next
    case False
    then have "Max (set (w # ws)) = max w (Max (set ws))" by simp
    with False Cons.IH[of "max a w"] show ?thesis by (simp add: max.assoc)
  qed
qed

lemma foldl_max_Max:
  fixes ws :: "rat list"
  assumes "ws \<noteq> []" "\<forall>w \<in> set ws. a \<le> w"
  shows "foldl max a ws = Max (set ws)"
proof -
  from assms obtain w where "w \<in> set ws" by (cases ws) auto
  with assms(2) have "a \<le> Max (set ws)" by (meson List.finite_set Max_ge order_trans)
  with assms(1) show ?thesis by (simp add: foldl_max_cases max_absorb2)
qed

lemma detector_step_closed:
  assumes "\<forall>p \<in> set (d_patterns det). 0 \<le> p_weight p"
  shows "detector_step session (all_content session) signals det =
     (case signal_of session det of
        None \<Rightarrow> signals
      | Some s \<Rightarrow> map_set signals (d_name det) s)"
proof (cases "matching session det = []")
  case True
  then show ?thesis
    by (simp add: detector_step_def pattern_fold signal_of_def matching_def Let_def)
next
  case False
  have "foldl max 0 (map p_weight (matching session det)) = Max (set (map p_weight (matching session det)))"
    using False assms by (intro foldl_max_Max) (auto simp: matching_def)
  with False show ?thesis
    by (simp add: detector_step_def pattern_fold signal_of_def matching_def[symmetric] Let_def
          boosted_confidence_def)
qed

lemma map_set_fresh: "k \<notin> fst ` set m \<Longrightarrow> map_set m k v = m @ [(k, v)]"
  by (induction m) auto

lemma signal_of_name: "signal_of session det = Some s \<Longrightarrow> ss_name s = d_name det"
  by (auto simp: signal_of_def Let_def split: if_splits)

lemma detectors_fold:
  assumes "\<forall>det \<in> set ds. \<forall>p \<in> set (d_patterns det). 0 \<le> p_weight p"
    and "distinct (map d_name ds)" and "fst ` set signals \<inter> d_name ` set ds = {}"
  shows "foldl (detector_step session (all_content session)) signals ds
           = signals @ map (\<lambda>s. (ss_name s, s)) (List.map_filter (signal_of session) ds)"
  using assms
proof (induction ds arbitrary: signals)
  case Nil
  then show ?case by (simp add: List.map_filter_simps)
next
  case (Cons det ds)
  have step: "detector_step session (all_content session) signals det =
     (case signal_of session det of None \<Rightarrow> signals | Some s \<Rightarrow> map_set signals (d_name det) s)"
    using Cons.prems(1) by (intro detector_step_closed) simp
  show ?case
  proof (cases "signal_of session det")
    case None
    with step Cons.prems show ?thesis
      by (simp add: List.map_filter_simps Cons.IH)
  next
    case (Some s)
    from Cons.prems(3) have fresh: "d_name det \<notin> fst ` set signals" by auto
    have nm: "ss_name s = d_name det" using Some by (rule signal_of_name)
    have "fst ` set (signals @ [(d_name det, s)]) \<inter> d_name ` set ds = {}"
      using Cons.prems(2,3) by auto
    with Cons.prems have "foldl (detector_step session (all_content session)) (signals @ [(d_name det, s)]) ds
           = (signals @ [(d_name det, s)]) @ map (\<lambda>s. (ss_name s, s)) (List.map_filter (signal_of session) ds)"
      by (intro Cons.IH) auto
    with step Some fresh nm show ?thesis
      by (simp add: List.map_filter_simps map_set_fresh)
  qed
qed

lemma detectStack_with_closed:
  assumes "\<forall>det \<in> set ds. \<forall>p \<in> set (d_patterns det). 0 \<le> p_weight p"
    and "distinct (map d_name ds)"
  shows "detectStack_with ds session
           = sort_key (\<lambda>s. - ss_confidence s) (List.map_filter (signal_of session) ds)"
  using detectors_fold[OF assms, of "[]" session]
  by (simp add: detectStack_with_def Let_def comp_def)

lemma table_weights: "\<forall>det \<in> set STACK_DETECTORS. \<forall>p \<in> set (d_patterns det). 0 \<le> p_weight p"
  by code_simp

lemma table_names: "distinct (map d_name STACK_DETECTORS)"
  by code_simp

lemma map_filter_names:
  "s \<in> set (List.map_filter (signal_of session) ds) \<Longrightarrow> ss_name s \<in> d_name ` set ds"
  by (induction ds) (auto simp: List.map_filter_simps split: option.splits dest: signal_of_name)

lemma filter_name_map_filter:
  "distinct (map d_name ds) \<Longrightarrow> det \<in> set ds \<Longrightarrow>
     filter (\<lambda>s. ss_name s = d_name det) (List.map_filter (signal_of session) ds)
       = (case signal_of session det of None \<Rightarrow> [] | Some s \<Rightarrow> [s])"
proof (induction ds)
  case Nil
  then show ?case by simp
next
  case (Cons d ds)
  show ?case
  proof (cases "d = det")
    case True
    from Cons.prems(1) True have "d_name det \<notin> d_name ` set ds" by auto
    then have "filter (\<lambda>s. ss_name s = d_name det) (List.map_filter (signal_of session) ds) = []"
    proof -
      have "ss_name s \<noteq> d_name det" if "s \<in> set (List.map_filter (signal_of session) ds)" for s
        using map_filter_names[OF that] \<open>d_name det \<notin> d_name ` set ds\<close> by auto
      then show ?thesis by (simp add: filter_empty_conv)
    qed
    with True show ?thesis
      by (auto simp: List.map_filter_simps split: option.splits dest: signal_of_name)
  next
    case False
    with Cons.prems have in_ds: "det \<in> set ds" and ne: "d_name d \<noteq> d_name det" by auto
    from Cons.prems(1) have "distinct (map d_name ds)" by simp
    from Cons.IH[OF this in_ds] ne show ?thesis
      by (auto simp: List.map_filter_simps split: option.splits dest: signal_of_name)
  qed
qed

lemma detectStack_closed:
  "detectStack session
     = sort_key (\<lambda>s. - ss_confidence s) (List.map_filter (signal_of session) STACK_DETECTORS)"
  unfolding detectStack_def by (rule detectStack_with_closed[OF table_weights table_names])

lemma next_detector: "\<lparr>d_name = ''Next.js'', d_category = ''framework'',
     d_patterns =
       [pat (Lit ''__NEXT_DATA__'') (dec 9 1) ''__NEXT_DATA__ script'',
        pat (Lit ''/_next/'') (dec 8 1) ''/_next/ assets'',
        pat (Lit ''next/head'') (dec 7 1) ''next/head import'',
        pat (Lit ''data-nscript'') (dec 6 1) ''Next.js script attribute'']\<rparr> \<in> set STACK_DETECTORS"
  by (simp add: STACK_DETECTORS_def)

lemma next_confidence: "boosted_confidence (Max {dec 9 1, dec 8 1}) 2 = 1"
  by code_simp

text \<open>
  Claim C5. The result of \<open>detectStack\<close> is the stable sort, by falling confidence, of
  the signals of the detectors in table order. A detector of the table some of whose
  fingerprints match the combined corpus yields exactly one signal, with confidence
  \<open>min(maxWeight + min(0.1 * (evidenceCount - 1), 0.15), 1)\<close> computed in doubles and
  with its evidence in fingerprint order; a detector none of whose fingerprints match
  yields none. The list is sorted by non-increasing confidence, and the signals of one
  confidence stand in detector table order. When the corpus matches the fingerprints
  \<open>__NEXT_DATA__\<close> and \<open>/_next/\<close> and no other fingerprint of Next.js, the Next.js signal
  has confidence 1 and exactly these two evidence entries.
\<close>

theorem detectStack_signals:
  "detectStack session
     = sort_key (\<lambda>s. - ss_confidence s) (List.map_filter (signal_of session) STACK_DETECTORS)
   \<and> (\<forall>detector \<in> set STACK_DETECTORS.
        filter (\<lambda>s. ss_name s = d_name detector) (detectStack session) =
          (if matching session detector = [] then []
           else [\<lparr>ss_name = d_name detector, ss_category = d_category detector,
                  ss_confidence =
                    min (js_add (Max (set (map p_weight (matching session detector))))
                           (min (js_mul (dec 1 1) (of_nat (length (matching session detector)) - 1))
                                (dec 15 2)))
                        1,
                  ss_evidence = map p_description (matching session detector),
                  ss_sourceUrls = foldl (add_urls session) [] (matching session detector)\<rparr>]))
   \<and> sorted_wrt (\<lambda>a b. ss_confidence b \<le> ss_confidence a) (detectStack session)
   \<and> (\<forall>c. filter (\<lambda>s. ss_confidence s = c) (detectStack session)
           = filter (\<lambda>s. ss_confidence s = c) (List.map_filter (signal_of session) STACK_DETECTORS))
   \<and> (re_test (Lit ''__NEXT_DATA__'') True (all_content session)
        \<and> re_test (Lit ''/_next/'') True (all_content session)
        \<and> \<not> re_test (Lit ''next/head'') True (all_content session)
        \<and> \<not> re_test (Lit ''data-nscript'') True (all_content session)
      \<longrightarrow> (\<exists>s. filter (\<lambda>s. ss_name s = ''Next.js'') (detectStack session) = [s]
               \<and> ss_confidence s = 1
               \<and> ss_evidence s = [''__NEXT_DATA__ script'', ''/_next/ assets'']))"
proof (intro conjI ballI allI impI)
  show closed: "detectStack session
     = sort_key (\<lambda>s. - ss_confidence s) (List.map_filter (signal_of session) STACK_DETECTORS)"
    by (rule detectStack_closed)
  show by_name: "filter (\<lambda>s. ss_name s = d_name detector) (detectStack session) =
          (if matching session detector = [] then []
           else [\<lparr>ss_name = d_name detector, ss_category = d_category detector,
                  ss_confidence =
                    min (js_add (Max (set (map p_weight (matching session detector))))
                           (min (js_mul (dec 1 1) (of_nat (length (matching session detector)) - 1))
                                (dec 15 2)))
                        1,
                  ss_evidence = map p_description (matching session detector),
                  ss_sourceUrls = foldl (add_urls session) [] (matching session detector)\<rparr>])"
    if "detector \<in> set STACK_DETECTORS" for detector
  proof -
    have "filter (\<lambda>s. ss_name s = d_name detector) (detectStack session)
        = sort_key (\<lambda>s. - ss_confidence s)
            (case signal_of session detector of None \<Rightarrow> [] | Some s \<Rightarrow> [s])"
      by (simp add: closed filter_sort filter_name_map_filter[OF table_names that])
    then show ?thesis
      by (simp add: signal_of_def Let_def boosted_confidence_def)
  qed
  have "sorted (map (\<lambda>s. - ss_confidence s) (detectStack session))"
    by (simp add: closed)
  then show "sorted_wrt (\<lambda>a b. ss_confidence b \<le> ss_confidence a) (detectStack session)"
    by (simp add: sorted_wrt_map)
  show "filter (\<lambda>s. ss_confidence s = c) (detectStack session)
           = filter (\<lambda>s. ss_confidence s = c) (List.map_filter (signal_of session) STACK_DETECTORS)" for c
    using sort_key_stable[of "\<lambda>s. - ss_confidence s" "- c"
            "List.map_filter (signal_of session) STACK_DETECTORS"]
    by (simp add: closed)
  assume a: "re_test (Lit ''__NEXT_DATA__'') True (all_content session)
        \<and> re_test (Lit ''/_next/'') True (all_content session)
        \<and> \<not> re_test (Lit ''next/head'') True (all_content session)
        \<and> \<not> re_test (Lit ''data-nscript'') True (all_content session)"
  let ?d = "\<lparr>d_name = ''Next.js'', d_category = ''framework'',
     d_patterns =
       [pat (Lit ''__NEXT_DATA__'') (dec 9 1) ''__NEXT_DATA__ script'',
        pat (Lit ''/_next/'') (dec 8 1) ''/_next/ assets'',
        pat (Lit ''next/head'') (dec 7 1) ''next/head import'',
        pat (Lit ''data-nscript'') (dec 6 1) ''Next.js script attribute'']\<rparr>"
  from a have m: "matching session ?d
      = [pat (Lit ''__NEXT_DATA__'') (dec 9 1) ''__NEXT_DATA__ script'',
         pat (Lit ''/_next/'') (dec 8 1) ''/_next/ assets'']"
    by (simp add: matching_def matches_corpus_def pat_def)
  have "boosted_confidence (Max {dec 9 1, dec 8 1}) 2 = 1" by (rule next_confidence)
  then have c1: "min (js_add (Max {dec 9 1, dec 8 1}) (min (js_mul (dec 1 1) (2 - 1)) (dec 15 2))) 1 = 1"
    by (simp add: boosted_confidence_def)
  from by_name[OF next_detector] m c1
  show "\<exists>s. filter (\<lambda>s. ss_name s = ''Next.js'') (detectStack session) = [s]
               \<and> ss_confidence s = 1
               \<and> ss_evidence s = [''__NEXT_DATA__ script'', ''/_next/ assets'']"
    by (simp add: pat_def)
qed

lemma next_eval:
  "detectStack (session_of [next_markup] []) =
     [\<lparr>ss_name = ''Next.js'', ss_category = ''framework'', ss_confidence = 1,
       ss_evidence = [''__NEXT_DATA__ script'', ''/_next/ assets''],
       ss_sourceUrls = [''https://example.com/'']\<rparr>]"
  by code_simp

lemma next_tests:
  "re_test (Lit ''__NEXT_DATA__'') True (all_content (session_of [next_markup] []))"
  "re_test (Lit ''/_next/'') True (all_content (session_of [next_markup] []))"
  "\<not> re_test (Lit ''next/head'') True (all_content (session_of [next_markup] []))"
  "\<not> re_test (Lit ''data-nscript'') True (all_content (session_of [next_markup] []))"
  by code_simp+

theorem detectStack_signals_witness:
  "re_test (Lit ''__NEXT_DATA__'') True (all_content (session_of [next_markup] []))
   \<and> re_test (Lit ''/_next/'') True (all_content (session_of [next_markup] []))
   \<and> \<not> re_test (Lit ''next/head'') True (all_content (session_of [next_markup] []))
   \<and> \<not> re_test (Lit ''data-nscript'') True (all_content (session_of [next_markup] []))
   \<and> detectStack (session_of [next_markup] []) =
       [\<lparr>ss_name = ''Next.js'', ss_category = ''framework'', ss_confidence = 1,
         ss_evidence = [''__NEXT_DATA__ script'', ''/_next/ assets''],
         ss_sourceUrls = [''https://example.com/'']\<rparr>]
   \<and> (\<exists>s. filter (\<lambda>s. ss_name s = ''Next.js'') (detectStack (session_of [next_markup] [])) = [s]
          \<and> ss_confidence s = 1
          \<and> ss_evidence s = [''__NEXT_DATA__ script'', ''/_next/ assets''])"
proof -
  from detectStack_signals[of "session_of [next_markup] []"] next_tests
  have "\<exists>s. filter (\<lambda>s. ss_name s = ''Next.js'') (detectStack (session_of [next_markup] [])) = [s]
          \<and> ss_confidence s = 1
          \<and> ss_evidence s = [''__NEXT_DATA__ script'', ''/_next/ assets'']"
    by blast
  with next_tests next_eval show ?thesis by blast
qed

section \<open>Properties of color extraction\<close>














text \<open>
  Claim C7 fails on the code. \<open>extractColors\<close> reads the \<open>lastIndex\<close> that the previous
  call left in the module-level \<open>COLOR_REGEX\<close>: the first call on
  \<open>:root{--color-primary-bg:#102030;}\<close> returns one token and leaves \<open>lastIndex = 7\<close>,
  and the second call with the same arguments, starting there, returns no token.
\<close>

theorem extractColors_second_call_differs:
  "extractColors primary_bg_css ''https://example.com/a.css'' 0 =
     Some ([\<lparr>ct_name = ''--color-primary-bg'', ct_value = ''#102030'', ct_format = ''hex'',
              ct_usage = ''background'',
              ct_source = \<lparr>sourceType = ''css'', sourceUrl = ''https://example.com/a.css'',
                           sampleSnippet = ''--color-primary-bg:#102030'',
                           confidence = dec 85 2\<rparr>\<rparr>], 7)
   \<and> extractColors primary_bg_css ''https://example.com/a.css'' 7 = Some ([], 0)"
  by code_simp

section \<open>Properties of component detection\<close>

lemma no_components_in_empty_css:
  "component_loop start [] componentPatterns [] = Some []"
  by code_simp

text \<open>
  Claim C10. \<open>detectComponentPatterns\<close> matches the fetched stylesheet texts only: for a
  session whose stylesheet map is empty it returns the empty list, whatever the pages
  hold, and two sessions with the same stylesheet map and start URL get the same
  result.
\<close>

theorem detectComponentPatterns_reads_stylesheets_only:
  "(cssContents session = [] \<longrightarrow> detectComponentPatterns session = Some [])
   \<and> (cssContents s1 = cssContents s2 \<and> startUrl s1 = startUrl s2
        \<longrightarrow> detectComponentPatterns s1 = detectComponentPatterns s2)"
  by (simp add: detectComponentPatterns_def Let_def no_components_in_empty_css)

theorem detectComponentPatterns_reads_stylesheets_only_witness:
  "cssContents (session_of [btn_page] []) = []
   \<and> detectComponentPatterns (session_of [btn_page] []) = Some []
   \<and> inline_styles btn_page = [''.btn{color:red}.btn:hover{color:blue}'']
   \<and> cssContents (session_of [btn_page] []) = cssContents (session_of [] [])
   \<and> startUrl (session_of [btn_page] []) = startUrl (session_of [] [])
   \<and> detectComponentPatterns (session_of [btn_page] []) = detectComponentPatterns (session_of [] [])"
proof -
  have c: "cssContents (session_of [btn_page] []) = []" by (simp add: session_of_def)
  have e: "cssContents (session_of [btn_page] []) = cssContents (session_of [] [])"
    "startUrl (session_of [btn_page] []) = startUrl (session_of [] [])"
    by (simp_all add: session_of_def)
  have i: "inline_styles btn_page = [''.btn{color:red}.btn:hover{color:blue}'']" by code_simp
  from detectComponentPatterns_reads_stylesheets_only[of "session_of [btn_page] []"
         "session_of [btn_page] []" "session_of [] []"] c e
  have "detectComponentPatterns (session_of [btn_page] []) = Some []"
    "detectComponentPatterns (session_of [btn_page] []) = detectComponentPatterns (session_of [] [])"
    by blast+
  with c e i show ?thesis by blast
qed

section \<open>Properties of the accessibility signals\<close>

lemma three_of_four: "\<not> js_div 3 4 > dec 8 1" "show_int (math_round (js_mul (js_div 3 4) 100)) = ''75''"
  "show_nat 3 = ''3''" "show_nat 4 = ''4''"
  by code_simp+

text \<open>
  Claim C9. The list of accessibility signals always holds exactly one signal named
  "Image Alt Text". It is present exactly when the alt coverage exceeds 0.8, both
  doubles, where the coverage is the number of \<open><img>\<close> tags with \<open>alt=\<close> divided by the
  number of \<open><img>\<close> tags, and 1 when there is no \<open><img>\<close> tag (so the signal is present
  then). For fewer than \<open>2\<^sup>5\<^sup>0\<close> tags the comparison of doubles agrees with the
  exact ratio: the signal is present exactly when there is no tag or
  \<open>5 \<times> withAlt > 4 \<times> total\<close>, so that 4 of 5 is not enough. When 3 of 4 images carry
  \<open>alt\<close>, the signal is not present and its detail text is
  \<open>3/4 images have alt text (75%)\<close>.
\<close>

theorem image_alt_text_signal:
  "filter (\<lambda>s. feature s = ''Image Alt Text'') (detectAccessibilitySignals session)
     = [alt_signal (startUrl session) (join [LF] (map fullHtml (pages session)))]
   \<and> feature (alt_signal start html) = ''Image Alt Text''
   \<and> present (alt_signal start html) = (alt_coverage (img_tags html) > dec 8 1)
   \<and> alt_coverage imgs =
       (if imgs = [] then 1
        else js_div (of_nat (length (filter (re_test (Lit ''alt='') True) imgs)))
                    (of_nat (length imgs)))
   \<and> (img_tags html = [] \<longrightarrow> alt_coverage (img_tags html) = 1 \<and> present (alt_signal start html))
   \<and> (length imgs \<le> 2 ^ 50
        \<longrightarrow> (alt_coverage imgs > dec 8 1) = (imgs = [] \<or> 4 * length imgs < 5 * img_with_alt imgs))
   \<and> (length (img_tags html) = 4 \<and> img_with_alt (img_tags html) = 3
        \<longrightarrow> \<not> present (alt_signal start html)
            \<and> details (alt_signal start html) = Some ''3/4 images have alt text (75%)'')"
proof (intro conjI impI)
  show "filter (\<lambda>s. feature s = ''Image Alt Text'') (detectAccessibilitySignals session)
     = [alt_signal (startUrl session) (join [LF] (map fullHtml (pages session)))]"
    by (simp add: detectAccessibilitySignals_def Let_def alt_signal_def)
  show "feature (alt_signal start html) = ''Image Alt Text''"
    by (simp add: alt_signal_def Let_def)
  show "present (alt_signal start html) = (alt_coverage (img_tags html) > dec 8 1)"
    by (simp add: alt_signal_def Let_def)
  show "alt_coverage imgs =
       (if imgs = [] then 1
        else js_div (of_nat (length (filter (re_test (Lit ''alt='') True) imgs)))
                    (of_nat (length imgs)))"
    by (simp add: alt_coverage_def img_with_alt_def)
next
  assume "img_tags html = []"
  then show "alt_coverage (img_tags html) = 1"
    by (simp add: alt_coverage_def)
  have "dec 8 1 < 1" by code_simp
  with \<open>img_tags html = []\<close> show "present (alt_signal start html)"
    by (simp add: alt_signal_def Let_def alt_coverage_def)
next
  assume le: "length imgs \<le> 2 ^ 50"
  show "(alt_coverage imgs > dec 8 1) = (imgs = [] \<or> 4 * length imgs < 5 * img_with_alt imgs)"
  proof (cases "imgs = []")
    case True
    have "dec 8 1 < 1" by code_simp
    with True show ?thesis by (simp add: alt_coverage_def)
  next
    case False
    then have "0 < length imgs" by simp
    from coverage_exceeds_iff[OF this le, of "img_with_alt imgs"] False
    show ?thesis by (simp add: alt_coverage_def)
  qed
next
  assume a: "length (img_tags html) = 4 \<and> img_with_alt (img_tags html) = 3"
  then have c: "alt_coverage (img_tags html) = js_div 3 4"
    by (simp add: alt_coverage_def)
  with three_of_four(1) show "\<not> present (alt_signal start html)"
    by (simp add: alt_signal_def Let_def)
  from a c three_of_four(2,3,4)
  show "details (alt_signal start html) = Some ''3/4 images have alt text (75%)''"
    by (simp add: alt_signal_def Let_def)
qed

lemma four_images_tags:
  "img_tags four_images
     = [''<img src=a.png alt=A>'', ''<IMG src=b.png ALT=B>'', ''<img alt= src=c.png>'', ''<img src=d.png>'']"
  "img_with_alt (img_tags four_images) = 3"
  "img_tags ''<p>no images</p>'' = []"
  by code_simp+

lemma five_tags_counts: "length five_tags = 5" "img_with_alt five_tags = 4"
  by code_simp+

theorem image_alt_text_signal_witness:
  "img_tags ''<p>no images</p>'' = []
   \<and> present (alt_signal ''https://example.com/'' ''<p>no images</p>'')
   \<and> length (img_tags four_images) = 4 \<and> img_with_alt (img_tags four_images) = 3
   \<and> \<not> present (alt_signal ''https://example.com/'' four_images)
   \<and> details (alt_signal ''https://example.com/'' four_images)
       = Some ''3/4 images have alt text (75%)''
   \<and> length five_tags \<le> 2 ^ 50 \<and> img_with_alt five_tags = 4
   \<and> \<not> alt_coverage five_tags > dec 8 1"
proof -
  have l: "length (img_tags four_images) = 4" by (simp add: four_images_tags(1))
  from image_alt_text_signal[of _ "''https://example.com/''" four_images] l four_images_tags(2)
  have a: "\<not> present (alt_signal ''https://example.com/'' four_images)"
    "details (alt_signal ''https://example.com/'' four_images)
       = Some ''3/4 images have alt text (75%)''"
    by blast+
  from image_alt_text_signal[of _ "''https://example.com/''" "''<p>no images</p>''"]
    four_images_tags(3)
  have b: "present (alt_signal ''https://example.com/'' ''<p>no images</p>'')" by blast
  have f: "length five_tags \<le> 2 ^ 50" by (simp add: five_tags_counts(1))
  have ne: "five_tags \<noteq> []" using five_tags_counts(1) by auto
  from image_alt_text_signal[of _ _ _ five_tags] f
  have "(alt_coverage five_tags > dec 8 1)
          = (five_tags = [] \<or> 4 * length five_tags < 5 * img_with_alt five_tags)"
    by blast
  with ne have c: "\<not> alt_coverage five_tags > dec 8 1"
    by (simp add: five_tags_counts)
  from a b l four_images_tags f five_tags_counts(2) c show ?thesis by blast
qed

section \<open>Properties of the typography scale\<close>

lemma adv_refl: "adv 0 st st"
  by (simp add: adv_def)

lemma adv_trans: "adv n a b \<Longrightarrow> adv m b c \<Longrightarrow> adv (n + m) a c"
  by (auto simp: adv_def)

lemma adv_weaken: "adv n a b \<Longrightarrow> m \<le> n \<Longrightarrow> adv m a b"
  by (auto simp: adv_def)

lemma step_char_adv: "st' \<in> set (step_char p st) \<Longrightarrow> adv (Suc 0) st st'"
  by (cases "ms_rest st") (auto simp: step_char_def adv_def split: if_splits)

lemma match_lit_adv: "st' \<in> set (match_lit ic k st) \<Longrightarrow> adv (length k) st st'"
proof (induction k arbitrary: st)
  case Nil
  then show ?case by (simp add: adv_refl)
next
  case (Cons x xs)
  then obtain st1 where 1: "st1 \<in> set (step_char (char_eq ic x) st)"
    and 2: "st' \<in> set (match_lit ic xs st1)" by auto
  from adv_trans[OF step_char_adv[OF 1] Cons.IH[OF 2]] show ?case by simp
qed

lemma star_adv:
  assumes f: "\<And>a b. b \<in> set (f a) \<Longrightarrow> adv 0 a b"
  shows "st' \<in> set (star f fuel st) \<Longrightarrow> adv 0 st st'"
proof (induction fuel arbitrary: st)
  case Nil
  then show ?case by (simp add: adv_refl)
next
  case (Cons x fuel)
  from Cons.prems consider "st' = st"
    | st1 where "st1 \<in> set (f st)" "st' \<in> set (star f fuel st1)"
    by (auto simp: advancing_def)
  then show ?case
  proof cases
    case 1
    then show ?thesis by (simp add: adv_refl)
  next
    case 2
    from adv_trans[OF f[OF 2(1)] Cons.IH[OF 2(2)]] show ?thesis by simp
  qed
qed

lemma lazy_star_adv:
  assumes f: "\<And>a b. b \<in> set (f a) \<Longrightarrow> adv 0 a b"
  shows "st' \<in> set (lazy_star f fuel st) \<Longrightarrow> adv 0 st st'"
proof (induction fuel arbitrary: st)
  case Nil
  then show ?case by (simp add: adv_refl)
next
  case (Cons x fuel)
  from Cons.prems consider "st' = st"
    | st1 where "st1 \<in> set (f st)" "st' \<in> set (lazy_star f fuel st1)"
    by (auto simp: advancing_def)
  then show ?case
  proof cases
    case 1
    then show ?thesis by (simp add: adv_refl)
  next
    case 2
    from adv_trans[OF f[OF 2(1)] Cons.IH[OF 2(2)]] show ?thesis by simp
  qed
qed

lemma rep_upto_adv:
  assumes f: "\<And>a b. b \<in> set (f a) \<Longrightarrow> adv 0 a b"
  shows "st' \<in> set (rep_upto f n st) \<Longrightarrow> adv 0 st st'"
proof (induction n arbitrary: st)
  case 0
  then show ?case by (simp add: adv_refl)
next
  case (Suc n)
  from Suc.prems consider "st' = st"
    | st1 where "st1 \<in> set (f st)" "st' \<in> set (rep_upto f n st1)"
    by (auto simp: advancing_def)
  then show ?case
  proof cases
    case 1
    then show ?thesis by (simp add: adv_refl)
  next
    case 2
    from adv_trans[OF f[OF 2(1)] Suc.IH[OF 2(2)]] show ?thesis by simp
  qed
qed

lemma rep_exact_adv:
  assumes f: "\<And>a b. b \<in> set (f a) \<Longrightarrow> adv n a b"
    and k: "\<And>a b. b \<in> set (k a) \<Longrightarrow> adv 0 a b"
  shows "st' \<in> set (rep_exact f lo k st) \<Longrightarrow> adv (lo * n) st st'"
proof (induction lo arbitrary: st)
  case 0
  then show ?case by (simp add: k)
next
  case (Suc lo)
  then obtain st1 where 1: "st1 \<in> set (f st)" and 2: "st' \<in> set (rep_exact f lo k st1)"
    by auto
  from adv_trans[OF f[OF 1] Suc.IH[OF 2]] show ?case by (simp add: add.commute)
qed

lemma adv_set_cap: "adv n st st' \<Longrightarrow> adv n st (set_cap k st0 st')"
  by (simp add: adv_def set_cap_def)

lemma matcher_adv: "st' \<in> set (matcher r ic st) \<Longrightarrow> adv (min_len r) st st'"
proof (induction r arbitrary: st st')
  case (Lit p)
  then show ?case by (simp add: match_lit_adv)
next
  case (Cls items)
  then show ?case by (simp add: step_char_adv)
next
  case (NCls items)
  then show ?case by (simp add: step_char_adv)
next
  case (Seq a b)
  from Seq.prems obtain st1 where "st1 \<in> set (matcher a ic st)" "st' \<in> set (matcher b ic st1)"
    by auto
  then show ?case using adv_trans[OF Seq.IH(1) Seq.IH(2)] by simp
next
  case (Alt a b)
  from Alt.prems have "st' \<in> set (matcher a ic st) \<or> st' \<in> set (matcher b ic st)" by simp
  then show ?case
    using adv_weaken[OF Alt.IH(1), of st' st "min (min_len a) (min_len b)"]
          adv_weaken[OF Alt.IH(2), of st' st "min (min_len a) (min_len b)"]
    by auto
next
  case (Star r)
  have "adv 0 a b" if "b \<in> set (matcher r ic a)" for a b
    using adv_weaken[OF Star.IH[OF that]] by simp
  from star_adv[of "matcher r ic", OF this] Star.prems show ?case by simp
next
  case (LazyStar r)
  have "adv 0 a b" if "b \<in> set (matcher r ic a)" for a b
    using adv_weaken[OF LazyStar.IH[OF that]] by simp
  from lazy_star_adv[of "matcher r ic", OF this] LazyStar.prems show ?case by simp
next
  case (Plus r)
  from Plus.prems obtain st1 where 1: "st1 \<in> set (matcher r ic st)"
    and 2: "st' \<in> set (star (matcher r ic) (ms_rest st1) st1)" by auto
  have "adv 0 a b" if "b \<in> set (matcher r ic a)" for a b
    using adv_weaken[OF Plus.IH[OF that]] by simp
  from star_adv[of "matcher r ic", OF this 2] have "adv 0 st1 st'" .
  from adv_trans[OF Plus.IH[OF 1] this] show ?case by simp
next
  case (Opt r)
  from Opt.prems have "st' = st \<or> st' \<in> set (matcher r ic st)" by (auto simp: advancing_def)
  then show ?case using adv_weaken[OF Opt.IH, of st' st 0] by (auto simp: adv_refl)
next
  case (Rep lo hi r)
  have z: "adv 0 a b" if "b \<in> set (matcher r ic a)" for a b
    using adv_weaken[OF Rep.IH[OF that]] by simp
  have "adv 0 a b" if "b \<in> set (rep_upto (matcher r ic) (hi - lo) a)" for a b
    using rep_upto_adv[of "matcher r ic", OF z that] .
  from rep_exact_adv[of "matcher r ic" "min_len r" "rep_upto (matcher r ic) (hi - lo)", OF Rep.IH this]
    Rep.prems show ?case by simp
next
  case (Grp k r)
  then show ?case by (auto simp: adv_set_cap)
next
  case WordB
  then show ?case by (simp add: adv_refl split: if_splits)
next
  case Bol
  then show ?case by (simp add: adv_refl split: if_splits)
next
  case Eol
  then show ?case by (simp add: adv_refl split: if_splits)
qed

lemma search_bounds:
  "search r ic p i s = Some mt \<Longrightarrow>
     i \<le> m_index mt \<and> m_index mt + min_len r \<le> m_end mt \<and> m_end mt \<le> i + length s"
proof (induction s arbitrary: p i)
  case Nil
  let ?st = "\<lparr>ms_prev = p, ms_rest = [], ms_pos = i, ms_caps = []\<rparr>"
  from Nil obtain e es where m: "matcher r ic ?st = e # es" and mt: "mt = mk_match ?st e"
    by (auto simp: Let_def split: list.splits)
  from m have "e \<in> set (matcher r ic ?st)" by simp
  from matcher_adv[OF this] mt show ?case by (auto simp: adv_def mk_match_def)
next
  case (Cons c cs)
  let ?st = "\<lparr>ms_prev = p, ms_rest = c # cs, ms_pos = i, ms_caps = []\<rparr>"
  show ?case
  proof (cases "matcher r ic ?st")
    case Nil
    with Cons.prems have "search r ic (Some c) (Suc i) cs = Some mt" by (simp add: Let_def)
    from Cons.IH[OF this] show ?thesis by simp
  next
    case (Cons e es)
    with Cons.prems have mt: "mt = mk_match ?st e" by (simp add: Let_def)
    from Cons have "e \<in> set (matcher r ic ?st)" by simp
    from matcher_adv[OF this] mt show ?thesis by (auto simp: adv_def mk_match_def)
  qed
qed

lemma re_exec_g_bounds:
  assumes "re_exec_g r ic s lastIndex = (Some mt, li)"
  shows "li = m_end mt \<and> lastIndex + min_len r \<le> li \<and> li \<le> length s"
proof -
  from assms have le: "lastIndex \<le> length s"
    and s: "search r ic (prev_at s lastIndex) lastIndex (drop lastIndex s) = Some mt"
    and li: "li = m_end mt"
    by (auto simp: re_exec_g_def split: if_splits option.splits)
  from search_bounds[OF s] le li show ?thesis by auto
qed

lemma exec_loop_total:
  "0 < min_len r \<Longrightarrow> \<exists>ms. exec_loop r ic s lastIndex = Some ms"
proof (induction r ic s lastIndex rule: exec_loop.induct)
  case (1 r ic s lastIndex)
  obtain mo li where e: "re_exec_g r ic s lastIndex = (mo, li)"
    by (cases "re_exec_g r ic s lastIndex")
  show ?case
  proof (cases mo)
    case None
    with e show ?thesis by (simp add: exec_loop.simps[of r ic s lastIndex])
  next
    case (Some mt)
    from re_exec_g_bounds[OF e[unfolded Some]]
    have b1: "lastIndex + min_len r \<le> li" and b2: "li \<le> length s" by simp_all
    from b1 "1.prems" have "lastIndex < li" by linarith
    with b2 have b: "lastIndex < li \<and> li \<le> length s" by simp
    from "1.IH"[OF e[symmetric] Some b "1.prems"] obtain ms where "exec_loop r ic s li = Some ms"
      by blast
    with e Some b show ?thesis by (simp add: exec_loop.simps[of r ic s lastIndex])
  qed
qed

lemma headings_loop_map: "headings_loop start ms hs = hs @ map (heading_of start) ms"
  by (induction ms arbitrary: hs) simp_all

lemma body_loop_last:
  "body_loop start ms b = (if ms = [] then b else Some (body_of start (last ms)))"
  by (induction ms arbitrary: b) simp_all

lemma typography_min_len:
  "0 < min_len headingRegex" "0 < min_len bodyRegex" "0 < min_len FONT_FAMILY_REGEX"
  by (simp_all add: headingRegex_def bodyRegex_def FONT_FAMILY_REGEX_def ws_def)

lemma two_h1_scale:
  "map_option (\<lambda>t. (map (\<lambda>h. (h_tag h, h_fontSize h, h_fontWeight h)) (headings t),
                     map_option (\<lambda>b. (b_fontSize b, b_lineHeight b)) (bodyText t)))
     (extractTypographyScale (session_of [] [(''a.css'', two_h1_css)]))
   = Some ([(''h1'', Some ''2rem'', None), (''h1'', Some ''3rem'', Some ''700'')],
           Some (None, Some ''1.5''))"
  by code_simp

text \<open>
  Claim C8. \<open>extractTypographyScale\<close> always returns. Its heading list has one record
  for every match of the heading pattern in the scanned CSS, in scan order, with no
  merging and no deduplication, and its body record is the record of the last match of
  the body pattern, or null when there is none. On a stylesheet that declares \<open>h1\<close>
  twice and \<open>body\<close> twice, the list holds two \<open>h1\<close> records and the body record is the
  one of the second \<open>body\<close> rule alone.
\<close>

theorem typography_scale_records:
  "(\<exists>hms fms bms.
      exec_loop headingRegex True (all_css session) 0 = Some hms
      \<and> exec_loop FONT_FAMILY_REGEX True (all_css session) 0 = Some fms
      \<and> exec_loop bodyRegex True (all_css session) 0 = Some bms
      \<and> extractTypographyScale session =
          Some \<lparr>headings = map (heading_of (startUrl session)) hms,
                bodyText = (if bms = [] then None
                            else Some (body_of (startUrl session) (last bms))),
                fontFamilies = fonts_loop (startUrl session) fms {} []\<rparr>)
   \<and> map_option (\<lambda>t. (map (\<lambda>h. (h_tag h, h_fontSize h, h_fontWeight h)) (headings t),
                       map_option (\<lambda>b. (b_fontSize b, b_lineHeight b)) (bodyText t)))
       (extractTypographyScale (session_of [] [(''a.css'', two_h1_css)]))
     = Some ([(''h1'', Some ''2rem'', None), (''h1'', Some ''3rem'', Some ''700'')],
             Some (None, Some ''1.5''))"
proof (intro conjI)
  from exec_loop_total[OF typography_min_len(1)] obtain hms where
    h: "exec_loop headingRegex True (all_css session) 0 = Some hms" by blast
  from exec_loop_total[OF typography_min_len(3)] obtain fms where
    f: "exec_loop FONT_FAMILY_REGEX True (all_css session) 0 = Some fms" by blast
  from exec_loop_total[OF typography_min_len(2)] obtain bms where
    b: "exec_loop bodyRegex True (all_css session) 0 = Some bms" by blast
  have "extractTypographyScale session =
          Some \<lparr>headings = map (heading_of (startUrl session)) hms,
                bodyText = (if bms = [] then None
                            else Some (body_of (startUrl session) (last bms))),
                fontFamilies = fonts_loop (startUrl session) fms {} []\<rparr>"
    by (simp add: extractTypographyScale_def Let_def h f b headings_loop_map body_loop_last)
  with h f b show "\<exists>hms fms bms.
      exec_loop headingRegex True (all_css session) 0 = Some hms
      \<and> exec_loop FONT_FAMILY_REGEX True (all_css session) 0 = Some fms
      \<and> exec_loop bodyRegex True (all_css session) 0 = Some bms
      \<and> extractTypographyScale session =
          Some \<lparr>headings = map (heading_of (startUrl session)) hms,
                bodyText = (if bms = [] then None
                            else Some (body_of (startUrl session) (last bms))),
                fontFamilies = fonts_loop (startUrl session) fms {} []\<rparr>"
    by blast
  show "map_option (\<lambda>t. (map (\<lambda>h. (h_tag h, h_fontSize h, h_fontWeight h)) (headings t),
                       map_option (\<lambda>b. (b_fontSize b, b_lineHeight b)) (bodyText t)))
       (extractTypographyScale (session_of [] [(''a.css'', two_h1_css)]))
     = Some ([(''h1'', Some ''2rem'', None), (''h1'', Some ''3rem'', Some ''700'')],
             Some (None, Some ''1.5''))"
    by (rule two_h1_scale)
qed


end
